theory Spec2Isabelle
  imports Complex_Main "HOL-Library.Code_Target_Nat"
begin

section \<open>Values exchanged with the collaborators\<close>

text \<open>
  The session (\<^verbatim>\<open>class Game\<close>) and its dispatcher (\<^verbatim>\<open>class GameLogic\<close>) are embedded from
  their sources. The modules they import (\<^verbatim>\<open>common/action\<close>, \<^verbatim>\<open>common/entity_manager\<close>,
  \<^verbatim>\<open>common/spatial_system\<close>, \<^verbatim>\<open>common/physics_system\<close>, \<^verbatim>\<open>pipe\<close>, \<^verbatim>\<open>factory\<close>,
  \<^verbatim>\<open>common/response\<close>, \<^verbatim>\<open>common/utils\<close>) are not among the sources. Their data is
  declared here as far as the embedded code reads it; their operations are parameters
  (record \<open>env\<close> below).
\<close>

type_synonym EntityId = nat

type_synonym Direction = nat

type_synonym exn = string

datatype ComponentType = SPATIAL | PHYSICS | AGENT | RENDER

datatype EntityType = PLAYER | OTHER_ENTITY nat

type_synonym Entity = "EntityId \<times> EntityType"

text \<open>
  \<^verbatim>\<open>PlayerAction\<close> is a tagged value: \<^verbatim>\<open>{type, playerId}\<close>, and \<^verbatim>\<open>MoveAction\<close> adds
  \<^verbatim>\<open>direction\<close>. \<^verbatim>\<open>ActionType.MOVE\<close> is the only tag the dispatcher names; every other tag
  is \<open>OtherAction\<close> with the tag's number.
\<close>

datatype PlayerAction =
    MoveAction (playerId: EntityId) (direction: Direction)
  | OtherAction (tag: nat) (playerId: EntityId)

text \<open>
  Modelled from the spec: a component packet is an opaque payload attached to one entity
  (\<^verbatim>\<open>ComponentPacket\<close> of \<^verbatim>\<open>common/system\<close>, which is not among the sources).
\<close>

datatype ComponentPacket =
  ComponentPacket (entityId: EntityId) (componentType: ComponentType) (payload: nat)

text \<open>The three messages a session sends (\<^verbatim>\<open>RNewEntities\<close>, \<^verbatim>\<open>RGameState\<close>, \<^verbatim>\<open>REntitiesDeleted\<close>).\<close>

datatype GameResponse =
    NEW_ENTITIES "Entity list"
  | GAME_STATE (packets: "ComponentPacket list") (frameNumber: nat)
  | ENTITIES_DELETED "Entity list"

section \<open>Programs that mutate state and may throw\<close>

text \<open>
  A method is a function from the state before to a result and the state after. The result
  is \<open>Inl e\<close> when the method throws \<open>e\<close>; the state after is then the state at the throw:
  JavaScript undoes nothing.
\<close>

type_synonym ('s, 'a) prog = "'s \<Rightarrow> (exn + 'a) \<times> 's"

definition ret :: "'a \<Rightarrow> ('s, 'a) prog" where
  "ret x = (\<lambda>s. (Inr x, s))"

definition bnd :: "('s, 'a) prog \<Rightarrow> ('a \<Rightarrow> ('s, 'b) prog) \<Rightarrow> ('s, 'b) prog" where
  "bnd m f = (\<lambda>s. case m s of (Inl e, s') \<Rightarrow> (Inl e, s') | (Inr x, s') \<Rightarrow> f x s')"

definition modify :: "('s \<Rightarrow> 's) \<Rightarrow> ('s, unit) prog" where
  "modify f = (\<lambda>s. (Inr (), f s))"

text \<open>\<^verbatim>\<open>Array.prototype.forEach\<close>: the callback runs on each element in order; a throw ends the loop.\<close>

fun forEach :: "('a \<Rightarrow> ('s, unit) prog) \<Rightarrow> 'a list \<Rightarrow> ('s, unit) prog" where
  "forEach f [] = ret ()"
| "forEach f (x # xs) = bnd (f x) (\<lambda>_. forEach f xs)"

section \<open>The collaborators, as parameters\<close>

text \<open>
  \<open>'w\<close> is the state of the \<^verbatim>\<open>EntityManager\<close> and of the systems registered in it, \<open>'p\<close> the
  state of the \<^verbatim>\<open>Pipe\<close>, \<open>'k\<close> a \<^verbatim>\<open>WebSocket\<close>. Every operation may throw. The operations
  that only read (\<^verbatim>\<open>getSystem\<close>, \<^verbatim>\<open>entityIsMoving\<close>, \<^verbatim>\<open>entities\<close>, \<^verbatim>\<open>getState\<close>) return a
  result; the others also return the state they leave behind. \<^verbatim>\<open>entities()\<close> returns a
  value, not a view of the store that later creations would change.
\<close>

record ('w, 'p, 'k) env =
  getSystem :: "ComponentType \<Rightarrow> 'w \<Rightarrow> exn + unit"
  entityIsMoving :: "EntityId \<Rightarrow> 'w \<Rightarrow> exn + bool"
  moveEntity :: "EntityId \<Rightarrow> Direction \<Rightarrow> 'w \<Rightarrow> (exn + unit) \<times> 'w"
  em_update :: "'w \<Rightarrow> (exn + unit) \<times> 'w"
  getDirties :: "'w \<Rightarrow> (exn + ComponentPacket list) \<times> 'w"
  entities :: "'w \<Rightarrow> exn + Entity list"
  getState :: "'w \<Rightarrow> exn + ComponentPacket list"
  removeEntity :: "EntityId \<Rightarrow> 'w \<Rightarrow> (exn + unit) \<times> 'w"
  constructPlayer :: "string \<Rightarrow> string \<Rightarrow> 'w \<Rightarrow> (exn + EntityId) \<times> 'w"
  addSocket :: "EntityId \<Rightarrow> 'k \<Rightarrow> 'p \<Rightarrow> (exn + unit) \<times> 'p"
  removeSocket :: "EntityId \<Rightarrow> 'p \<Rightarrow> (exn + unit) \<times> 'p"
  send :: "EntityId \<Rightarrow> GameResponse \<Rightarrow> 'p \<Rightarrow> (exn + unit) \<times> 'p"
  sendToAll :: "GameResponse \<Rightarrow> 'p \<Rightarrow> (exn + unit) \<times> 'p"

section \<open>The session state\<close>

text \<open>What the session writes to the console.\<close>

datatype log_line =
    HandlingAction
  | AddingPlayer EntityId
  | RemovingPlayer EntityId
  | ReceivedAction PlayerAction
  | ErrorCaught exn

text \<open>One entry per call the session makes on a collaborator or on the console.\<close>

datatype 'k call =
    Console log_line
  | GetSystem ComponentType
  | EntityIsMoving EntityId
  | MoveEntity EntityId Direction
  | EmUpdate
  | GetDirties
  | Entities
  | GetState
  | RemoveEntity EntityId
  | ConstructPlayer string string
  | AddSocket EntityId 'k
  | RemoveSocket EntityId
  | Send EntityId GameResponse
  | SendToAll GameResponse

text \<open>How an attempt to apply an action ended, when it returned.\<close>

datatype outcome = Applied | Contended | Unhandled

text \<open>
  \<open>entityManager\<close> is the one \<^verbatim>\<open>EntityManager\<close> that \<^verbatim>\<open>Game._em\<close> and
  \<^verbatim>\<open>GameLogic._entityManager\<close> both refer to; \<open>pipe\<close>, \<open>actionQueue\<close> and
  \<open>frame\<close> are the fields of \<^verbatim>\<open>Game\<close>; \<open>queuedAction\<close> is
  \<^verbatim>\<open>GameLogic._queuedAction\<close>, the retry slot (\<open>None\<close> is \<^verbatim>\<open>null\<close>).

  \<open>calls\<close> and \<open>attempts\<close> are history variables: the calls made so far, in order, and
  the dispatcher's attempts that returned so far, each with its outcome. The code
  neither has nor reads them; the model only appends to them.
\<close>

record ('w, 'p, 'k) session =
  entityManager :: 'w
  pipe :: 'p
  actionQueue :: "PlayerAction list"
  queuedAction :: "PlayerAction option"
  frame :: nat
  calls :: "'k call list"
  attempts :: "(PlayerAction \<times> outcome) list"

text \<open>
  A call on the entity manager or one of its systems that only reads (\<open>em_query\<close>) or
  that may change it (\<open>em_call\<close>), a call on the pipe, a line on the console: each is
  entered in \<open>calls\<close>, also when it throws. \<open>attempted\<close> enters an attempt and its
  outcome in \<open>attempts\<close>.
\<close>

definition em_query ::
  "'k call \<Rightarrow> ('w \<Rightarrow> exn + 'a) \<Rightarrow> (('w, 'p, 'k) session, 'a) prog" where
  "em_query c q = (\<lambda>s. (q (entityManager s), s\<lparr>calls := calls s @ [c]\<rparr>))"

definition em_call ::
  "'k call \<Rightarrow> ('w \<Rightarrow> (exn + 'a) \<times> 'w) \<Rightarrow> (('w, 'p, 'k) session, 'a) prog" where
  "em_call c f = (\<lambda>s.
     case f (entityManager s) of (r, w) \<Rightarrow> (r, s\<lparr>entityManager := w, calls := calls s @ [c]\<rparr>))"

definition pipe_call ::
  "'k call \<Rightarrow> ('p \<Rightarrow> (exn + 'a) \<times> 'p) \<Rightarrow> (('w, 'p, 'k) session, 'a) prog" where
  "pipe_call c f = (\<lambda>s.
     case f (pipe s) of (r, p) \<Rightarrow> (r, s\<lparr>pipe := p, calls := calls s @ [c]\<rparr>))"

definition console :: "log_line \<Rightarrow> (('w, 'p, 'k) session, unit) prog" where
  "console l = modify (\<lambda>s. s\<lparr>calls := calls s @ [Console l]\<rparr>)"

definition attempted :: "PlayerAction \<Rightarrow> outcome \<Rightarrow> (('w, 'p, 'k) session, unit) prog" where
  "attempted a r = modify (\<lambda>s. s\<lparr>attempts := attempts s @ [(a, r)]\<rparr>)"

section \<open>\<^verbatim>\<open>GameLogic\<close> (game_logic.ts)\<close>

text \<open>
  \<^verbatim>\<open>_movePlayer\<close>: fetch the physics and the spatial system, ask whether the entity is
  moving; if so store the action in \<^verbatim>\<open>_queuedAction\<close> and return false, otherwise command
  the move and return true.
\<close>

definition movePlayer ::
  "('w, 'p, 'k) env \<Rightarrow> PlayerAction \<Rightarrow> (('w, 'p, 'k) session, bool) prog" where
  "movePlayer env action =
     bnd (em_query (GetSystem PHYSICS) (getSystem env PHYSICS)) (\<lambda>physicsSys.
     bnd (em_query (GetSystem SPATIAL) (getSystem env SPATIAL)) (\<lambda>spatialSys.
     bnd (em_query (EntityIsMoving (playerId action)) (entityIsMoving env (playerId action)))
       (\<lambda>moving.
         if moving then
           bnd (modify (\<lambda>s. s\<lparr>queuedAction := Some action\<rparr>)) (\<lambda>_.
           bnd (attempted action Contended) (\<lambda>_. ret False))
         else
           bnd (em_call (MoveEntity (playerId action) (direction action))
                  (moveEntity env (playerId action) (direction action))) (\<lambda>_.
           bnd (attempted action Applied) (\<lambda>_. ret True)))))"

text \<open>\<^verbatim>\<open>_handlePlayerAction\<close>: log, switch on the tag; a tag without a case falls through to false.\<close>

definition handlePlayerAction ::
  "('w, 'p, 'k) env \<Rightarrow> PlayerAction \<Rightarrow> (('w, 'p, 'k) session, bool) prog" where
  "handlePlayerAction env action =
     bnd (console HandlingAction) (\<lambda>_.
       case action of
         MoveAction _ _ \<Rightarrow> movePlayer env action
       | OtherAction _ _ \<Rightarrow> bnd (attempted action Unhandled) (\<lambda>_. ret False))"

text \<open>The first statement of \<^verbatim>\<open>update\<close>: retry the held action, and empty the slot if it succeeds.\<close>

definition retryQueued :: "('w, 'p, 'k) env \<Rightarrow> (('w, 'p, 'k) session, unit) prog" where
  "retryQueued env = (\<lambda>s.
     case queuedAction s of
       None \<Rightarrow> ret () s
     | Some a \<Rightarrow>
         bnd (handlePlayerAction env a) (\<lambda>ok.
           if ok then modify (\<lambda>s. s\<lparr>queuedAction := None\<rparr>) else ret ()) s)"

text \<open>The callback of the \<^verbatim>\<open>forEach\<close> in \<^verbatim>\<open>update\<close>: an action that fails takes the slot.\<close>

definition attempt :: "('w, 'p, 'k) env \<Rightarrow> PlayerAction \<Rightarrow> (('w, 'p, 'k) session, unit) prog" where
  "attempt env action =
     bnd (handlePlayerAction env action) (\<lambda>ok.
       if \<not> ok then modify (\<lambda>s. s\<lparr>queuedAction := Some action\<rparr>) else ret ())"

text \<open>\<^verbatim>\<open>update\<close>: the retry of the held action, then every queued action in order.\<close>

definition update ::
  "('w, 'p, 'k) env \<Rightarrow> PlayerAction list \<Rightarrow> (('w, 'p, 'k) session, unit) prog" where
  "update env actions = bnd (retryQueued env) (\<lambda>_. forEach (attempt env) actions)"

section \<open>\<^verbatim>\<open>Game\<close>, the session (second part of render_system.ts)\<close>

text \<open>
  \<^verbatim>\<open>noThrow\<close>: run \<^verbatim>\<open>fn\<close>; a throw is written to the console and \<^verbatim>\<open>undefined\<close> (\<open>None\<close>) is
  returned.
\<close>

definition noThrow ::
  "(('w, 'p, 'k) session, 'a) prog \<Rightarrow> (('w, 'p, 'k) session, 'a option) prog" where
  "noThrow fn = (\<lambda>s.
     case fn s of
       (Inr v, s') \<Rightarrow> (Inr (Some v), s')
     | (Inl err, s') \<Rightarrow> (Inr None, s'\<lparr>calls := calls s' @ [Console (ErrorCaught err)]\<rparr>))"

text \<open>
  \<^verbatim>\<open>this._frame++\<close> on a JavaScript number that holds a natural number: exact below \<open>2^53\<close>;
  at \<open>2^53\<close> the sum \<open>2^53 + 1\<close> rounds back to \<open>2^53\<close>. A counter that starts at 0 and only
  changes by this increment never exceeds \<open>2^53\<close>.
\<close>

definition js_incr :: "nat \<Rightarrow> nat" where
  "js_incr n = (if n < 2 ^ 53 then n + 1 else n)"

text \<open>The fields a new \<^verbatim>\<open>Game\<close> starts with, around the collaborators its constructor built.\<close>

definition new_Game :: "'w \<Rightarrow> 'p \<Rightarrow> ('w, 'p, 'k) session" where
  "new_Game w p =
     \<lparr>entityManager = w, pipe = p, actionQueue = [], queuedAction = None, frame = 0,
      calls = [], attempts = []\<rparr>"

text \<open>
  \<^verbatim>\<open>_tick\<close>: hand the queue to the dispatcher, replace it by an empty one, advance the
  world, read the dirty components, broadcast them with the frame number if there are any,
  and increment the frame counter.
\<close>

definition tick :: "('w, 'p, 'k) env \<Rightarrow> (('w, 'p, 'k) session, unit) prog" where
  "tick env =
     bnd (\<lambda>s. update env (actionQueue s) s) (\<lambda>_.
     bnd (modify (\<lambda>s. s\<lparr>actionQueue := []\<rparr>)) (\<lambda>_.
     bnd (em_call EmUpdate (em_update env)) (\<lambda>_.
     bnd (em_call GetDirties (getDirties env)) (\<lambda>dirties.
     bnd (if dirties \<noteq> [] then
            (\<lambda>s. pipe_call (SendToAll (GAME_STATE dirties (frame s)))
                    (sendToAll env (GAME_STATE dirties (frame s))) s)
          else ret ()) (\<lambda>_.
     modify (\<lambda>s. s\<lparr>frame := js_incr (frame s)\<rparr>))))))"

text \<open>
  \<^verbatim>\<open>addPlayer\<close>: the three responses are built after the socket is added (the snapshot
  and the frame number are read then) and sent in the order roster, notice, snapshot.
\<close>

definition addPlayer ::
  "('w, 'p, 'k) env \<Rightarrow> 'k \<Rightarrow> string \<Rightarrow> string \<Rightarrow> (('w, 'p, 'k) session, EntityId) prog" where
  "addPlayer env socket pinataId pinataToken =
     bnd (em_query Entities (entities env)) (\<lambda>ents.
     bnd (em_call (ConstructPlayer pinataId pinataToken)
            (constructPlayer env pinataId pinataToken)) (\<lambda>id'.
     bnd (console (AddingPlayer id')) (\<lambda>_.
     bnd (pipe_call (AddSocket id' socket) (addSocket env id' socket)) (\<lambda>_.
     bnd (em_query GetState (getState env)) (\<lambda>state.
     (\<lambda>s. let newEntitiesResp = NEW_ENTITIES ents;
              stateUpdateResp = GAME_STATE state (frame s);
              newPlayerResp = NEW_ENTITIES [(id', PLAYER)]
          in bnd (pipe_call (Send id' newEntitiesResp) (send env id' newEntitiesResp)) (\<lambda>_.
             bnd (pipe_call (SendToAll newPlayerResp) (sendToAll env newPlayerResp)) (\<lambda>_.
             bnd (pipe_call (Send id' stateUpdateResp) (send env id' stateUpdateResp)) (\<lambda>_.
             ret id'))) s))))))"

text \<open>\<^verbatim>\<open>removePlayer\<close>: remove the entity, remove the socket, broadcast the deletion.\<close>

definition removePlayer ::
  "('w, 'p, 'k) env \<Rightarrow> EntityId \<Rightarrow> (('w, 'p, 'k) session, unit) prog" where
  "removePlayer env id' =
     bnd (console (RemovingPlayer id')) (\<lambda>_.
     bnd (em_call (RemoveEntity id') (removeEntity env id')) (\<lambda>_.
     bnd (pipe_call (RemoveSocket id') (removeSocket env id')) (\<lambda>_.
     pipe_call (SendToAll (ENTITIES_DELETED [(id', PLAYER)]))
       (sendToAll env (ENTITIES_DELETED [(id', PLAYER)])))))"

text \<open>\<^verbatim>\<open>onPlayerAction\<close>: log the action and push it on the queue.\<close>

definition onPlayerAction :: "PlayerAction \<Rightarrow> (('w, 'p, 'k) session, unit) prog" where
  "onPlayerAction action =
     bnd (console (ReceivedAction action)) (\<lambda>_.
     modify (\<lambda>s. s\<lparr>actionQueue := actionQueue s @ [action]\<rparr>))"

section \<open>\<^verbatim>\<open>Colour\<close> (render_system.ts)\<close>

text \<open>
  The four private fields, the setters \<^verbatim>\<open>r\<close>, \<^verbatim>\<open>g\<close>, \<^verbatim>\<open>b\<close>, \<^verbatim>\<open>a\<close>, each storing
  \<^verbatim>\<open>clamp(value, 0, 1)\<close>, the getters, and the constructor, which runs after the field
  initialisers (0, 0, 0, 1), assigns through the setters and takes 1.0 for an alpha that
  is not given (\<open>None\<close>). \<^verbatim>\<open>clamp\<close> is imported from \<^verbatim>\<open>common/utils\<close>, which is not among
  the sources: it is a parameter. The numbers are of any type with 0, 1 and an order.
\<close>

record 'n Colour =
  priv_r :: 'n
  priv_g :: 'n
  priv_b :: 'n
  priv_a :: 'n

type_synonym 'n clamp_fn = "'n \<Rightarrow> 'n \<Rightarrow> 'n \<Rightarrow> 'n"

definition set_r :: "'n::{zero,one} clamp_fn \<Rightarrow> 'n \<Rightarrow> 'n Colour \<Rightarrow> 'n Colour" where
  "set_r clamp v c = c\<lparr>priv_r := clamp v 0 1\<rparr>"

definition set_g :: "'n::{zero,one} clamp_fn \<Rightarrow> 'n \<Rightarrow> 'n Colour \<Rightarrow> 'n Colour" where
  "set_g clamp v c = c\<lparr>priv_g := clamp v 0 1\<rparr>"

definition set_b :: "'n::{zero,one} clamp_fn \<Rightarrow> 'n \<Rightarrow> 'n Colour \<Rightarrow> 'n Colour" where
  "set_b clamp v c = c\<lparr>priv_b := clamp v 0 1\<rparr>"

definition set_a :: "'n::{zero,one} clamp_fn \<Rightarrow> 'n \<Rightarrow> 'n Colour \<Rightarrow> 'n Colour" where
  "set_a clamp v c = c\<lparr>priv_a := clamp v 0 1\<rparr>"

definition get_r :: "'n Colour \<Rightarrow> 'n" where
  "get_r c = priv_r c"

definition get_g :: "'n Colour \<Rightarrow> 'n" where
  "get_g c = priv_g c"

definition get_b :: "'n Colour \<Rightarrow> 'n" where
  "get_b c = priv_b c"

definition get_a :: "'n Colour \<Rightarrow> 'n" where
  "get_a c = priv_a c"

definition new_Colour ::
  "'n::{zero,one} clamp_fn \<Rightarrow> 'n \<Rightarrow> 'n \<Rightarrow> 'n \<Rightarrow> 'n option \<Rightarrow> 'n Colour" where
  "new_Colour clamp r g b a =
     set_a clamp (case a of None \<Rightarrow> 1 | Some v \<Rightarrow> v)
       (set_b clamp b
         (set_g clamp g
           (set_r clamp r \<lparr>priv_r = 0, priv_g = 0, priv_b = 0, priv_a = 1\<rparr>)))"

section \<open>Collaborators to run the session on\<close>

text \<open>
  Modelled from the spec: an implementation of the collaborators that are not among the
  sources (the World State Store with its spatial and physics systems, and the Transport
  Registry), used only to run the embedded code on concrete inputs. The store keeps the
  roster, the entities in motion (each with the number of advances its move still takes;
  a move takes three) and the components changed since the last read; a new entity gets
  the successor of the greatest identity in the roster. The registry keeps the connections in the order they were added and every
  delivery it made: a unicast reaches the connection of that entity and throws when there
  is none, a broadcast reaches every connection.
\<close>

record sim_world =
  roster :: "Entity list"
  moving :: "(EntityId \<times> nat) list"
  dirty :: "ComponentPacket list"

definition freshId :: "Entity list \<Rightarrow> EntityId" where
  "freshId es = Suc (foldr max (map fst es) 0)"

record sim_pipe =
  sockets :: "(EntityId \<times> nat) list"
  delivered :: "(EntityId \<times> GameResponse) list"

definition sim :: "(sim_world, sim_pipe, nat) env" where
  "sim =
     \<lparr>getSystem = (\<lambda>t w. Inr ()),
      entityIsMoving = (\<lambda>i w. Inr (i \<in> set (map fst (moving w)))),
      moveEntity = (\<lambda>i d w. (Inr (), w\<lparr>moving := moving w @ [(i, 3)]\<rparr>)),
      em_update = (\<lambda>w. (Inr (),
        w\<lparr>moving := map (\<lambda>m. (fst m, snd m - 1)) (filter (\<lambda>m. 1 < snd m) (moving w)),
          dirty := dirty w @ map (\<lambda>m. ComponentPacket (fst m) SPATIAL (snd m)) (moving w)\<rparr>)),
      getDirties = (\<lambda>w. (Inr (dirty w), w\<lparr>dirty := []\<rparr>)),
      entities = (\<lambda>w. Inr (roster w)),
      getState = (\<lambda>w. Inr (map (\<lambda>e. ComponentPacket (fst e) SPATIAL 0) (roster w))),
      removeEntity = (\<lambda>i w. (Inr (),
        w\<lparr>roster := filter (\<lambda>e. fst e \<noteq> i) (roster w),
          moving := filter (\<lambda>m. fst m \<noteq> i) (moving w)\<rparr>)),
      constructPlayer = (\<lambda>pinataId pinataToken w. (Inr (freshId (roster w)),
        w\<lparr>roster := roster w @ [(freshId (roster w), PLAYER)]\<rparr>)),
      addSocket = (\<lambda>i k p. (Inr (), p\<lparr>sockets := sockets p @ [(i, k)]\<rparr>)),
      removeSocket = (\<lambda>i p. (Inr (), p\<lparr>sockets := filter (\<lambda>c. fst c \<noteq> i) (sockets p)\<rparr>)),
      send = (\<lambda>i m p.
        if i \<in> set (map fst (sockets p)) then (Inr (), p\<lparr>delivered := delivered p @ [(i, m)]\<rparr>)
        else (Inl ''no connection'', p)),
      sendToAll = (\<lambda>m p.
        (Inr (), p\<lparr>delivered := delivered p @ map (\<lambda>c. (fst c, m)) (sockets p)\<rparr>))\<rparr>"

text \<open>The same collaborators with a store whose advance throws, and with a registry whose broadcast throws.\<close>

definition sim_advance_throws :: "(sim_world, sim_pipe, nat) env" where
  "sim_advance_throws = sim\<lparr>em_update := (\<lambda>w. (Inl ''advance failed'', w))\<rparr>"

definition sim_broadcast_throws :: "(sim_world, sim_pipe, nat) env" where
  "sim_broadcast_throws = sim\<lparr>sendToAll := (\<lambda>m p. (Inl ''socket closed'', p))\<rparr>"

text \<open>A store with entities 1, 2 and 3, none in motion, and a registry with connections for 1 and 2.\<close>

definition world0 :: sim_world where
  "world0 = \<lparr>roster = [(1, PLAYER), (2, PLAYER), (3, OTHER_ENTITY 0)], moving = [], dirty = []\<rparr>"

definition pipe0 :: sim_pipe where
  "pipe0 = \<lparr>sockets = [(1, 10), (2, 20)], delivered = []\<rparr>"

definition game0 :: "(sim_world, sim_pipe, nat) session" where
  "game0 = new_Game world0 pipe0"

section \<open>Notions used to state the properties\<close>

subsection \<open>Contention\<close>

text \<open>
  What \<^verbatim>\<open>_movePlayer\<close> finds when it looks at an entity: both systems are there and the
  spatial system reports the entity in motion (\<open>contended\<close>) or not in motion (\<open>free\<close>).
\<close>

definition contended :: "('w, 'p, 'k) env \<Rightarrow> EntityId \<Rightarrow> 'w \<Rightarrow> bool" where
  "contended env i w \<longleftrightarrow>
     getSystem env PHYSICS w = Inr () \<and> getSystem env SPATIAL w = Inr () \<and>
     entityIsMoving env i w = Inr True"

definition free :: "('w, 'p, 'k) env \<Rightarrow> EntityId \<Rightarrow> 'w \<Rightarrow> bool" where
  "free env i w \<longleftrightarrow>
     getSystem env PHYSICS w = Inr () \<and> getSystem env SPATIAL w = Inr () \<and>
     entityIsMoving env i w = Inr False"

subsection \<open>The history of attempts\<close>

text \<open>The most recent attempt in a history that did not apply its action, if there is one.\<close>

definition lastFailed :: "(PlayerAction \<times> outcome) list \<Rightarrow> (PlayerAction \<times> outcome) option" where
  "lastFailed h =
     (let failed = filter (\<lambda>x. snd x \<noteq> Applied) h
      in if failed = [] then None else Some (last failed))"

text \<open>The one way an attempt of an action can fail: a move as contended, any other action as unhandled.\<close>

definition failure_of :: "PlayerAction \<Rightarrow> outcome" where
  "failure_of a = (case a of MoveAction i d \<Rightarrow> Contended | OtherAction t i \<Rightarrow> Unhandled)"

text \<open>
  The retry slot is empty, or it holds the action of the most recent failed attempt, and
  that attempt failed the way an attempt of this action can fail.
\<close>

definition slot_inv :: "('w, 'p, 'k) session \<Rightarrow> bool" where
  "slot_inv s =
     (case queuedAction s of
        None \<Rightarrow> True
      | Some a \<Rightarrow> lastFailed (attempts s) = Some (a, failure_of a))"

text \<open>The calls that go to the pipe.\<close>

fun is_pipe_call :: "'k call \<Rightarrow> bool" where
  "is_pipe_call (AddSocket i k) = True"
| "is_pipe_call (RemoveSocket i) = True"
| "is_pipe_call (Send i m) = True"
| "is_pipe_call (SendToAll m) = True"
| "is_pipe_call c = False"

text \<open>
  What a dispatcher step may change: from \<open>s\<close> to \<open>s'\<close> the pipe, the action queue and the
  frame counter stay, the calls grow by \<open>cs\<close> and the attempts by \<open>new\<close>.
\<close>

definition footprint ::
  "('w, 'p, 'k) session \<Rightarrow> ('w, 'p, 'k) session \<Rightarrow> 'k call list \<Rightarrow>
     (PlayerAction \<times> outcome) list \<Rightarrow> bool" where
  "footprint s s' cs new \<longleftrightarrow>
     pipe s' = pipe s \<and> actionQueue s' = actionQueue s \<and> frame s' = frame s \<and>
     calls s' = calls s @ cs \<and> attempts s' = attempts s @ new"

text \<open>The statements of \<^verbatim>\<open>_tick\<close> after the call of the dispatcher.\<close>

definition afterDispatch :: "('w, 'p, 'k) env \<Rightarrow> (('w, 'p, 'k) session, unit) prog" where
  "afterDispatch env =
     bnd (modify (\<lambda>s. s\<lparr>actionQueue := []\<rparr>)) (\<lambda>_.
     bnd (em_call EmUpdate (em_update env)) (\<lambda>_.
     bnd (em_call GetDirties (getDirties env)) (\<lambda>dirties.
     bnd (if dirties \<noteq> [] then
            (\<lambda>s. pipe_call (SendToAll (GAME_STATE dirties (frame s)))
                    (sendToAll env (GAME_STATE dirties (frame s))) s)
          else ret ()) (\<lambda>_.
     modify (\<lambda>s. s\<lparr>frame := js_incr (frame s)\<rparr>)))))"

subsection \<open>The periodic schedule\<close>

text \<open>
  \<^verbatim>\<open>setInterval\<close> calls the callback once per period, and a throw that escapes the
  callback ends the schedule (an uncaught exception ends the process). \<open>schedule cb qs\<close>
  runs one period for each element of \<open>qs\<close>: the session first receives the player
  actions of that element through \<^verbatim>\<open>onPlayerAction\<close>, then the timer calls \<open>cb\<close>. The
  constructor of \<^verbatim>\<open>Game\<close> installs \<^verbatim>\<open>noThrow\<close> around \<^verbatim>\<open>_tick\<close>: that is \<open>gameLoop\<close>, and
  \<open>period\<close> is the state it reaches after one period. Joins and leaves are not part of
  these runs.
\<close>

fun schedule ::
  "(('w, 'p, 'k) session, 'a) prog \<Rightarrow> PlayerAction list list \<Rightarrow> (('w, 'p, 'k) session, unit) prog"
  where
  "schedule cb [] = ret ()"
| "schedule cb (q # qs) = bnd (forEach onPlayerAction q) (\<lambda>_. bnd cb (\<lambda>_. schedule cb qs))"

definition gameLoop ::
  "('w, 'p, 'k) env \<Rightarrow> PlayerAction list list \<Rightarrow> (('w, 'p, 'k) session, unit) prog" where
  "gameLoop env = schedule (noThrow (tick env))"

definition period ::
  "('w, 'p, 'k) env \<Rightarrow> PlayerAction list \<Rightarrow> ('w, 'p, 'k) session \<Rightarrow> ('w, 'p, 'k) session"
  where
  "period env q s = snd (noThrow (tick env) (snd (forEach onPlayerAction q s)))"

text \<open>The number of periods of a run of the game loop whose tick returned without throwing.\<close>

fun successes :: "('w, 'p, 'k) env \<Rightarrow> PlayerAction list list \<Rightarrow> ('w, 'p, 'k) session \<Rightarrow> nat" where
  "successes env [] s = 0"
| "successes env (q # qs) s =
     (case tick env (snd (forEach onPlayerAction q s)) of
        (Inr _, s') \<Rightarrow> Suc (successes env qs s')
      | (Inl _, s') \<Rightarrow> successes env qs (period env q s))"

subsection \<open>Periods in which nothing takes the slot\<close>

text \<open>
  \<open>noneFails env as s\<close>: attempted in order from \<open>s\<close>, none of the actions \<open>as\<close> fails
  (returns false); the attempts end at the first that throws. \<open>othersDoNotFail env q s\<close>:
  in the period that starts in \<open>s\<close> and receives \<open>q\<close>, no queued action fails when the
  dispatcher comes to it after the retry of the slot. \<open>undisturbed\<close>: this holds in each
  period of a run. \<open>busy_through env i\<close>: moreover entity \<open>i\<close> is in motion at the start
  of each period.
\<close>

fun noneFails :: "('w, 'p, 'k) env \<Rightarrow> PlayerAction list \<Rightarrow> ('w, 'p, 'k) session \<Rightarrow> bool" where
  "noneFails env [] s = True"
| "noneFails env (a # as) s =
     (case handlePlayerAction env a s of
        (Inr True, s') \<Rightarrow> noneFails env as s'
      | (Inr False, s') \<Rightarrow> False
      | (Inl e, s') \<Rightarrow> True)"

definition othersDoNotFail ::
  "('w, 'p, 'k) env \<Rightarrow> PlayerAction list \<Rightarrow> ('w, 'p, 'k) session \<Rightarrow> bool" where
  "othersDoNotFail env q s =
     (let s0 = snd (forEach onPlayerAction q s)
      in noneFails env (actionQueue s0) (snd (retryQueued env s0)))"

fun undisturbed ::
  "('w, 'p, 'k) env \<Rightarrow> PlayerAction list list \<Rightarrow> ('w, 'p, 'k) session \<Rightarrow> bool" where
  "undisturbed env [] s = True"
| "undisturbed env (q # qs) s =
     (othersDoNotFail env q s \<and> undisturbed env qs (period env q s))"

fun busy_through ::
  "('w, 'p, 'k) env \<Rightarrow> EntityId \<Rightarrow> PlayerAction list list \<Rightarrow> ('w, 'p, 'k) session \<Rightarrow> bool"
  where
  "busy_through env i [] s = True"
| "busy_through env i (q # qs) s =
     (contended env i (entityManager s) \<and> othersDoNotFail env q s \<and>
      busy_through env i qs (period env q s))"

subsection \<open>Contracts of the collaborators\<close>

text \<open>
  Modelled from the spec: what the Transport Registry and the World State Store promise
  (their code, \<^verbatim>\<open>pipe\<close>, \<^verbatim>\<open>common/entity_manager\<close> and \<^verbatim>\<open>factory\<close>, is not among the
  sources). \<open>registered p i\<close> reads "the registry \<open>p\<close> has a connection for entity \<open>i\<close>":
  adding a connection registers it, removing it unregisters it, and sending changes no
  registration. A player the store creates has an identity that was not in the roster,
  the full state read after the creation has a component of it, and the roster read after
  a removal does not have the removed entity.
\<close>

definition registry_contract ::
  "('w, 'p, 'k) env \<Rightarrow> ('p \<Rightarrow> EntityId \<Rightarrow> bool) \<Rightarrow> bool" where
  "registry_contract env registered \<longleftrightarrow>
     (\<forall>i k p p'. addSocket env i k p = (Inr (), p') \<longrightarrow> registered p' i) \<and>
     (\<forall>i p p'. removeSocket env i p = (Inr (), p') \<longrightarrow> \<not> registered p' i) \<and>
     (\<forall>i m p r p'. send env i m p = (r, p') \<longrightarrow> registered p' = registered p) \<and>
     (\<forall>m p r p'. sendToAll env m p = (r, p') \<longrightarrow> registered p' = registered p)"

definition creates_fresh :: "('w, 'p, 'k) env \<Rightarrow> bool" where
  "creates_fresh env \<longleftrightarrow>
     (\<forall>a b w i w' r. constructPlayer env a b w = (Inr i, w') \<and> entities env w = Inr r \<longrightarrow>
        i \<notin> fst ` set r)"

definition snapshot_covers :: "('w, 'p, 'k) env \<Rightarrow> bool" where
  "snapshot_covers env \<longleftrightarrow>
     (\<forall>a b w i w' st. constructPlayer env a b w = (Inr i, w') \<and> getState env w' = Inr st \<longrightarrow>
        i \<in> entityId ` set st)"

definition roster_excludes_removed :: "('w, 'p, 'k) env \<Rightarrow> bool" where
  "roster_excludes_removed env \<longleftrightarrow>
     (\<forall>i w w' r. removeEntity env i w = (Inr (), w') \<and> entities env w' = Inr r \<longrightarrow>
        i \<notin> fst ` set r)"

subsection \<open>Assignments to a colour\<close>





text \<open>A number in the closed interval from 0 to 1, and a colour whose four getters return such numbers.\<close>

definition in_unit :: "'n::{zero,one,ord} \<Rightarrow> bool" where
  "in_unit x \<longleftrightarrow> 0 \<le> x \<and> x \<le> 1"


subsection \<open>Concrete inputs\<close>

text \<open>
  For the collaborators of the section above: the registry has a connection for an entity
  when one of its sockets is filed under it. A store in which no physics system is
  registered, as in a session whose constructor registers the spatial and the agent system
  only. The session reached from \<open>game0\<close> when entities 1, 2 and 3 have been set in motion,
  a second move of entity 1 has been held back, and second moves of entities 2 and 3 have
  just been received. A clamp on the real numbers.
\<close>

definition sim_registered :: "sim_pipe \<Rightarrow> EntityId \<Rightarrow> bool" where
  "sim_registered p i \<longleftrightarrow> i \<in> set (map fst (sockets p))"

definition sim_no_physics :: "(sim_world, sim_pipe, nat) env" where
  "sim_no_physics =
     sim\<lparr>getSystem := (\<lambda>t w. if t = PHYSICS then Inl ''no such system'' else Inr ())\<rparr>"

definition game_contended :: "(sim_world, sim_pipe, nat) session" where
  "game_contended =
     snd (forEach onPlayerAction [MoveAction 2 1, MoveAction 3 1]
       (snd (gameLoop sim
          [[MoveAction 1 0, MoveAction 2 0, MoveAction 3 0], [MoveAction 1 1]] game0)))"

text \<open>
  For the channels of a colour: a number that is a real or NaN, ordered as JavaScript
  compares numbers (every comparison with NaN is false), and two ways in which a clamp can
  be written over it. They differ at NaN: \<open>clamp_guarded\<close> returns the lower bound for it,
  \<open>clamp_compare\<close> returns it unchanged. Neither is the \<^verbatim>\<open>clamp\<close> of \<^verbatim>\<open>common/utils\<close>; they are
  inputs on which the model of \<^verbatim>\<open>Colour\<close> is run.
\<close>

datatype number = Num real | NaN

instantiation number :: "{zero, one, ord}"
begin

definition zero_number :: number where
  "zero_number = Num 0"

definition one_number :: number where
  "one_number = Num 1"

fun less_eq_number :: "number \<Rightarrow> number \<Rightarrow> bool" where
  "less_eq_number (Num x) (Num y) = (x \<le> y)"
| "less_eq_number x y = False"

fun less_number :: "number \<Rightarrow> number \<Rightarrow> bool" where
  "less_number (Num x) (Num y) = (x < y)"
| "less_number x y = False"

instance ..

end

definition clamp_guarded :: "number clamp_fn" where
  "clamp_guarded v lo hi = (if lo \<le> v then (if v \<le> hi then v else hi) else lo)"

definition clamp_compare :: "number clamp_fn" where
  "clamp_compare v lo hi = (if v < lo then lo else if hi < v then hi else v)"

section \<open>What one attempt and one resolve pass do\<close>

lemma bnd_Inr: "m s = (Inr x, s') \<Longrightarrow> bnd m f s = f x s'"
  by (simp add: bnd_def)

lemma bnd_Inl: "m s = (Inl e, s') \<Longrightarrow> bnd m f s = (Inl e, s')"
  by (simp add: bnd_def)

lemma bnd_assoc: "bnd (bnd m f) g = bnd m (\<lambda>x. bnd (f x) g)"
  by (auto simp: bnd_def fun_eq_iff split: prod.splits sum.splits)

lemma bnd_ret: "bnd (ret x) f = f x"
  by (simp add: bnd_def ret_def)

lemma forEach_append: "forEach f (xs @ ys) = bnd (forEach f xs) (\<lambda>_. forEach f ys)"
  by (induction xs) (simp_all add: bnd_ret bnd_assoc)

lemma handle_other:
  "handlePlayerAction env (OtherAction t i) s =
     (Inr False, s\<lparr>calls := calls s @ [Console HandlingAction],
                   attempts := attempts s @ [(OtherAction t i, Unhandled)]\<rparr>)"
  by (simp add: handlePlayerAction_def bnd_def console_def modify_def attempted_def ret_def)

lemma handle_contended:
  "contended env i (entityManager s) \<Longrightarrow>
   handlePlayerAction env (MoveAction i d) s =
     (Inr False,
      s\<lparr>calls := calls s @ [Console HandlingAction, GetSystem PHYSICS, GetSystem SPATIAL,
                              EntityIsMoving i],
        queuedAction := Some (MoveAction i d),
        attempts := attempts s @ [(MoveAction i d, Contended)]\<rparr>)"
  by (simp add: contended_def handlePlayerAction_def movePlayer_def bnd_def console_def
      modify_def attempted_def ret_def em_query_def)

lemma handle_free:
  "free env i (entityManager s) \<Longrightarrow> moveEntity env i d (entityManager s) = (Inr (), w) \<Longrightarrow>
   handlePlayerAction env (MoveAction i d) s =
     (Inr True,
      s\<lparr>entityManager := w,
        calls := calls s @ [Console HandlingAction, GetSystem PHYSICS, GetSystem SPATIAL,
                              EntityIsMoving i, MoveEntity i d],
        attempts := attempts s @ [(MoveAction i d, Applied)]\<rparr>)"
  by (simp add: free_def handlePlayerAction_def movePlayer_def bnd_def console_def
      modify_def attempted_def ret_def em_query_def em_call_def)


lemmas handle_defs = handlePlayerAction_def movePlayer_def bnd_def console_def
  modify_def attempted_def ret_def em_query_def em_call_def

lemma handle_cases [consumes 1, case_names applied contended unhandled thrown]:
  assumes run: "handlePlayerAction env a s = (r, s')"
  obtains
    (applied) i d w cs where "r = Inr True" "a = MoveAction i d" "free env i (entityManager s)"
      "s' = s\<lparr>entityManager := w, calls := calls s @ cs,
               attempts := attempts s @ [(a, Applied)]\<rparr>"
      "\<forall>c\<in>set cs. \<not> is_pipe_call c"
  | (contended) i d cs where "r = Inr False" "a = MoveAction i d"
      "contended env i (entityManager s)"
      "s' = s\<lparr>calls := calls s @ cs, queuedAction := Some a,
               attempts := attempts s @ [(a, Contended)]\<rparr>"
      "\<forall>c\<in>set cs. \<not> is_pipe_call c"
  | (unhandled) t i cs where "r = Inr False" "a = OtherAction t i"
      "s' = s\<lparr>calls := calls s @ cs, attempts := attempts s @ [(a, Unhandled)]\<rparr>"
      "\<forall>c\<in>set cs. \<not> is_pipe_call c"
  | (thrown) e w cs where "r = Inl e"
      "s' = s\<lparr>entityManager := w, calls := calls s @ cs\<rparr>"
      "\<forall>c\<in>set cs. \<not> is_pipe_call c"
proof (cases a)
  case (OtherAction t i)
  with run have h: "r = Inr False"
    "s' = s\<lparr>calls := calls s @ [Console HandlingAction],
             attempts := attempts s @ [(a, Unhandled)]\<rparr>"
    by (simp_all add: handle_other)
  show thesis by (rule unhandled [OF h(1) OtherAction h(2)]) simp
next
  case (MoveAction i d)
  let ?w = "entityManager s"
  show thesis
  proof (cases "getSystem env PHYSICS ?w")
    case (Inl e)
    with run MoveAction have "r = Inl e"
      "s' = s\<lparr>entityManager := ?w,
               calls := calls s @ [Console HandlingAction, GetSystem PHYSICS]\<rparr>"
      by (auto simp: handle_defs)
    then show thesis by (rule thrown) simp
  next
    case physics: (Inr u)
    show thesis
    proof (cases "getSystem env SPATIAL ?w")
      case (Inl e)
      with run MoveAction physics have "r = Inl e"
        "s' = s\<lparr>entityManager := ?w,
                 calls := calls s @ [Console HandlingAction, GetSystem PHYSICS,
                                       GetSystem SPATIAL]\<rparr>"
        by (auto simp: handle_defs)
      then show thesis by (rule thrown) simp
    next
      case spatial: (Inr u')
      show thesis
      proof (cases "entityIsMoving env i ?w")
        case (Inl e)
        with run MoveAction physics spatial have "r = Inl e"
          "s' = s\<lparr>entityManager := ?w,
                   calls := calls s @ [Console HandlingAction, GetSystem PHYSICS,
                                         GetSystem SPATIAL, EntityIsMoving i]\<rparr>"
          by (auto simp: handle_defs)
        then show thesis by (rule thrown) simp
      next
        case (Inr moving)
        show thesis
        proof (cases moving)
          case True
          with Inr physics spatial have c: "contended env i ?w"
            by (simp add: contended_def)
          from run MoveAction have h: "r = Inr False"
            "s' = s\<lparr>calls := calls s @ [Console HandlingAction, GetSystem PHYSICS,
                                           GetSystem SPATIAL, EntityIsMoving i],
                     queuedAction := Some a,
                     attempts := attempts s @ [(a, Contended)]\<rparr>"
            by (simp_all add: handle_contended [OF c])
          show thesis by (rule contended [OF h(1) MoveAction c h(2)]) simp
        next
          case False
          with Inr physics spatial have f: "free env i ?w"
            by (simp add: free_def)
          obtain q w where mv: "moveEntity env i d ?w = (q, w)"
            by (cases "moveEntity env i d ?w")
          show thesis
          proof (cases q)
            case (Inl e)
            with run MoveAction physics spatial \<open>entityIsMoving env i ?w = Inr moving\<close> False mv
            have "r = Inl e"
              "s' = s\<lparr>entityManager := w,
                       calls := calls s @ [Console HandlingAction, GetSystem PHYSICS,
                                             GetSystem SPATIAL, EntityIsMoving i,
                                             MoveEntity i d]\<rparr>"
              by (auto simp: handle_defs)
            then show thesis by (rule thrown) simp
          next
            case (Inr u'')
            with mv have mv': "moveEntity env i d ?w = (Inr (), w)" by simp
            from run MoveAction have h: "r = Inr True"
              "s' = s\<lparr>entityManager := w,
                       calls := calls s @ [Console HandlingAction, GetSystem PHYSICS,
                                             GetSystem SPATIAL, EntityIsMoving i,
                                             MoveEntity i d],
                       attempts := attempts s @ [(a, Applied)]\<rparr>"
              by (simp_all add: handle_free [OF f mv'])
            show thesis by (rule applied [OF h(1) MoveAction f h(2)]) simp
          qed
        qed
      qed
    qed
  qed
qed


lemma lastFailed_Nil [simp]: "lastFailed [] = None"
  by (simp add: lastFailed_def)

lemma lastFailed_snoc [simp]:
  "lastFailed (h @ [(a, r)]) = (if r = Applied then lastFailed h else Some (a, r))"
  by (simp add: lastFailed_def Let_def)

lemma lastFailed_append:
  "lastFailed (h @ new) = (case lastFailed new of None \<Rightarrow> lastFailed h | Some x \<Rightarrow> Some x)"
proof (induction new rule: rev_induct)
  case Nil
  show ?case by simp
next
  case (snoc x xs)
  obtain a r where x: "x = (a, r)" by (cases x)
  have "lastFailed (h @ xs @ [(a, r)]) = lastFailed ((h @ xs) @ [(a, r)])" by simp
  also have "\<dots> = (if r = Applied then lastFailed (h @ xs) else Some (a, r))"
    by (rule lastFailed_snoc)
  finally show ?case using snoc x by simp
qed

lemma footprint_refl: "footprint s s [] []"
  by (simp add: footprint_def)

lemma footprint_trans:
  assumes "footprint s s' cs new" "footprint s' s'' cs' new'"
  shows "footprint s s'' (cs @ cs') (new @ new')"
  using assms by (simp add: footprint_def)

lemma attempt_cases [consumes 1, case_names applied failed thrown]:
  assumes run: "attempt env a s = (r, s')"
  obtains
    (applied) cs where "r = Inr ()" "footprint s s' cs [(a, Applied)]"
      "queuedAction s' = queuedAction s" "\<forall>c\<in>set cs. \<not> is_pipe_call c"
  | (failed) cs where "r = Inr ()" "footprint s s' cs [(a, failure_of a)]"
      "failure_of a \<noteq> Applied"
      "queuedAction s' = Some a" "entityManager s' = entityManager s"
      "\<forall>c\<in>set cs. \<not> is_pipe_call c"
  | (thrown) e cs where "r = Inl e" "footprint s s' cs []"
      "queuedAction s' = queuedAction s" "\<forall>c\<in>set cs. \<not> is_pipe_call c"
proof -
  obtain ok s1 where h: "handlePlayerAction env a s = (ok, s1)"
    by (cases "handlePlayerAction env a s")
  have att: "attempt env a s =
      (case ok of Inl e \<Rightarrow> (Inl e, s1)
       | Inr b \<Rightarrow> (Inr (), if b then s1 else s1\<lparr>queuedAction := Some a\<rparr>))"
    using h by (simp add: attempt_def bnd_def modify_def ret_def split: sum.splits)
  from h show thesis
  proof (cases rule: handle_cases)
    case (applied i d w cs)
    with run att show thesis by (intro that(1) [of cs]) (auto simp: footprint_def)
  next
    case (contended i d cs)
    with run att show thesis
      by (intro that(2) [of cs]) (auto simp: footprint_def failure_of_def)
  next
    case (unhandled t i cs)
    with run att show thesis
      by (intro that(2) [of cs]) (auto simp: footprint_def failure_of_def)
  next
    case (thrown e w cs)
    with run att show thesis by (intro that(3) [of e cs]) (auto simp: footprint_def)
  qed
qed


lemma lastFailed_Cons:
  "lastFailed ((a, r) # h) =
     (case lastFailed h of None \<Rightarrow> (if r = Applied then None else Some (a, r)) | Some y \<Rightarrow> Some y)"
  using lastFailed_append [of "[(a, r)]" h] lastFailed_snoc [of "[]" a r]
  by (auto split: option.splits)

lemma forEach_attempt:
  "forEach (attempt env) xs s = (r, s') \<Longrightarrow>
   \<exists>cs new rest. footprint s s' cs new \<and> (\<forall>c\<in>set cs. \<not> is_pipe_call c) \<and>
     xs = map fst new @ rest \<and> (r = Inr () \<longrightarrow> rest = []) \<and>
     (\<forall>x\<in>set new. snd x = Applied \<or> snd x = failure_of (fst x)) \<and>
     queuedAction s' = (case lastFailed new of None \<Rightarrow> queuedAction s | Some x \<Rightarrow> Some (fst x))"
proof (induction xs arbitrary: s)
  case Nil
  then have "s' = s" "r = Inr ()" by (simp_all add: ret_def)
  then show ?case
    by (intro exI [of _ "[]"]) (simp add: footprint_refl)
next
  case (Cons x xs)
  obtain r1 s1 where a: "attempt env x s = (r1, s1)" by (cases "attempt env x s")
  from a show ?case
  proof (cases rule: attempt_cases)
    case (thrown e cs)
    with a Cons.prems have "r = Inl e" "s' = s1" by (simp_all add: bnd_def)
    with thrown show ?thesis
      by (intro exI [of _ cs] exI [of _ "[]"] exI [of _ "x # xs"]) simp
  next
    case (applied cs)
    with a Cons.prems have "forEach (attempt env) xs s1 = (r, s')" by (simp add: bnd_def)
    from Cons.IH [OF this] obtain cs2 new2 rest where
      ih: "footprint s1 s' cs2 new2" "\<forall>c\<in>set cs2. \<not> is_pipe_call c"
        "xs = map fst new2 @ rest" "r = Inr () \<longrightarrow> rest = []"
        "\<forall>x\<in>set new2. snd x = Applied \<or> snd x = failure_of (fst x)"
        "queuedAction s' =
           (case lastFailed new2 of None \<Rightarrow> queuedAction s1 | Some x \<Rightarrow> Some (fst x))"
      by blast
    from applied ih show ?thesis
      by (intro exI [of _ "cs @ cs2"] exI [of _ "(x, Applied) # new2"] exI [of _ rest])
        (auto simp: footprint_def lastFailed_Cons split: option.splits)
  next
    case (failed cs)
    with a Cons.prems have "forEach (attempt env) xs s1 = (r, s')" by (simp add: bnd_def)
    from Cons.IH [OF this] obtain cs2 new2 rest where
      ih: "footprint s1 s' cs2 new2" "\<forall>c\<in>set cs2. \<not> is_pipe_call c"
        "xs = map fst new2 @ rest" "r = Inr () \<longrightarrow> rest = []"
        "\<forall>x\<in>set new2. snd x = Applied \<or> snd x = failure_of (fst x)"
        "queuedAction s' =
           (case lastFailed new2 of None \<Rightarrow> queuedAction s1 | Some x \<Rightarrow> Some (fst x))"
      by blast
    from failed ih show ?thesis
      by (intro exI [of _ "cs @ cs2"] exI [of _ "(x, failure_of x) # new2"] exI [of _ rest])
        (auto simp: footprint_def lastFailed_Cons split: option.splits)
  qed
qed

lemma retryQueued_footprint:
  assumes "retryQueued env s = (r, s')"
  shows "\<exists>cs new. footprint s s' cs new \<and> (\<forall>c\<in>set cs. \<not> is_pipe_call c) \<and>
     fst ` set new \<subseteq> set_option (queuedAction s) \<and>
     (queuedAction s' = None \<or> queuedAction s' = queuedAction s) \<and>
     (slot_inv s \<longrightarrow> slot_inv s')"
proof (cases "queuedAction s")
  case None
  with assms have "s' = s" by (simp add: retryQueued_def ret_def)
  then show ?thesis
    by (intro exI [of _ "[]"]) (simp add: footprint_refl)
next
  case (Some a)
  obtain ok s1 where h: "handlePlayerAction env a s = (ok, s1)"
    by (cases "handlePlayerAction env a s")
  have rq: "retryQueued env s =
      (case ok of Inl e \<Rightarrow> (Inl e, s1)
       | Inr b \<Rightarrow> (Inr (), if b then s1\<lparr>queuedAction := None\<rparr> else s1))"
    using h Some by (simp add: retryQueued_def bnd_def modify_def ret_def split: sum.splits)
  from h show ?thesis
  proof (cases rule: handle_cases)
    case (applied i d w cs)
    with assms rq Some show ?thesis
      by (intro exI [of _ cs] exI [of _ "[(a, Applied)]"])
        (auto simp: footprint_def slot_inv_def failure_of_def)
  next
    case (contended i d cs)
    with assms rq Some show ?thesis
      by (intro exI [of _ cs] exI [of _ "[(a, Contended)]"])
        (auto simp: footprint_def slot_inv_def failure_of_def)
  next
    case (unhandled t i cs)
    with assms rq Some show ?thesis
      by (intro exI [of _ cs] exI [of _ "[(a, Unhandled)]"])
        (auto simp: footprint_def slot_inv_def failure_of_def)
  next
    case (thrown e w cs)
    with assms rq Some show ?thesis
      by (intro exI [of _ cs] exI [of _ "[]"])
        (auto simp: footprint_def slot_inv_def failure_of_def)
  qed
qed

lemma forEach_attempt_inv:
  assumes "forEach (attempt env) xs s = (r, s')" "slot_inv s"
  shows "slot_inv s'"
proof -
  from forEach_attempt [OF assms(1)] obtain cs new rest where
    f: "footprint s s' cs new"
      "queuedAction s' =
         (case lastFailed new of None \<Rightarrow> queuedAction s | Some x \<Rightarrow> Some (fst x))"
      "\<forall>x\<in>set new. snd x = Applied \<or> snd x = failure_of (fst x)"
    by blast
  then have a: "attempts s' = attempts s @ new" by (simp add: footprint_def)
  have k: "snd x = failure_of (fst x)" if "lastFailed new = Some x" for x
  proof -
    from that have "x \<in> set new" "snd x \<noteq> Applied"
      by (auto simp: lastFailed_def Let_def split: if_splits
          dest: last_in_set [of "filter (\<lambda>x. snd x \<noteq> Applied) new"])
    with f(3) show ?thesis by blast
  qed
  show ?thesis
  proof (cases "lastFailed new")
    case None
    with a f(2) assms(2) show ?thesis
      by (auto simp: slot_inv_def lastFailed_append split: option.splits)
  next
    case (Some x)
    with k [OF Some] a f(2) show ?thesis
      by (cases x) (auto simp: slot_inv_def lastFailed_append)
  qed
qed

lemma update_footprint:
  assumes "update env xs s = (r, s')"
  shows "\<exists>cs new. footprint s s' cs new \<and> (\<forall>c\<in>set cs. \<not> is_pipe_call c) \<and>
     fst ` set new \<subseteq> set_option (queuedAction s) \<union> set xs \<and>
     set_option (queuedAction s') \<subseteq> set_option (queuedAction s) \<union> set xs \<and>
     (slot_inv s \<longrightarrow> slot_inv s')"
proof -
  obtain r1 s1 where rq: "retryQueued env s = (r1, s1)" by (cases "retryQueued env s")
  from retryQueued_footprint [OF rq] obtain cs1 new1 where
    1: "footprint s s1 cs1 new1" "\<forall>c\<in>set cs1. \<not> is_pipe_call c"
      "fst ` set new1 \<subseteq> set_option (queuedAction s)"
      "queuedAction s1 = None \<or> queuedAction s1 = queuedAction s"
      "slot_inv s \<longrightarrow> slot_inv s1"
    by blast
  show ?thesis
  proof (cases r1)
    case (Inl e)
    with rq assms have "s' = s1" by (simp add: update_def bnd_def)
    with 1 show ?thesis
      by (intro exI [of _ cs1] exI [of _ new1]) auto
  next
    case (Inr u)
    with rq assms have fe: "forEach (attempt env) xs s1 = (r, s')"
      by (simp add: update_def bnd_def)
    from forEach_attempt [OF fe] obtain cs2 new2 rest where
      2: "footprint s1 s' cs2 new2" "\<forall>c\<in>set cs2. \<not> is_pipe_call c"
        "xs = map fst new2 @ rest"
        "queuedAction s' =
           (case lastFailed new2 of None \<Rightarrow> queuedAction s1 | Some x \<Rightarrow> Some (fst x))"
      by blast
    have sub: "fst ` set new2 \<subseteq> set xs" using 2(3) by auto
    have slot: "set_option (queuedAction s') \<subseteq> set_option (queuedAction s) \<union> set xs"
    proof (cases "lastFailed new2")
      case None
      with 2(4) 1(4) show ?thesis by auto
    next
      case (Some x)
      then have "x \<in> set new2"
        by (auto simp: lastFailed_def Let_def split: if_splits dest: last_in_set)
      with sub Some 2(4) show ?thesis by auto
    qed
    from 1 2 sub slot forEach_attempt_inv [OF fe] footprint_trans [OF 1(1) 2(1)]
    show ?thesis
      by (intro exI [of _ "cs1 @ cs2"] exI [of _ "new1 @ new2"]) auto
  qed
qed

section \<open>What one tick and the game loop do\<close>

lemma tick_split: "tick env = bnd (\<lambda>s. update env (actionQueue s) s) (\<lambda>_. afterDispatch env)"
  by (simp add: tick_def afterDispatch_def)

lemmas after_defs = afterDispatch_def bnd_def modify_def em_call_def pipe_call_def ret_def

lemma afterDispatch_advance_throws:
  "em_update env (entityManager s) = (Inl e, w) \<Longrightarrow>
   afterDispatch env s =
     (Inl e, s\<lparr>entityManager := w, actionQueue := [], calls := calls s @ [EmUpdate]\<rparr>)"
  by (simp add: after_defs)

lemma afterDispatch_dirties_throws:
  "em_update env (entityManager s) = (Inr (), w) \<Longrightarrow> getDirties env w = (Inl e, w') \<Longrightarrow>
   afterDispatch env s =
     (Inl e, s\<lparr>entityManager := w', actionQueue := [],
               calls := calls s @ [EmUpdate, GetDirties]\<rparr>)"
  by (simp add: after_defs)

lemma afterDispatch_clean:
  "em_update env (entityManager s) = (Inr (), w) \<Longrightarrow> getDirties env w = (Inr [], w') \<Longrightarrow>
   afterDispatch env s =
     (Inr (), s\<lparr>entityManager := w', actionQueue := [], frame := js_incr (frame s),
               calls := calls s @ [EmUpdate, GetDirties]\<rparr>)"
  by (simp add: after_defs)

lemma afterDispatch_broadcast:
  "em_update env (entityManager s) = (Inr (), w) \<Longrightarrow> getDirties env w = (Inr ds, w') \<Longrightarrow>
   ds \<noteq> [] \<Longrightarrow> sendToAll env (GAME_STATE ds (frame s)) (pipe s) = (Inr (), p) \<Longrightarrow>
   afterDispatch env s =
     (Inr (), s\<lparr>entityManager := w', pipe := p, actionQueue := [], frame := js_incr (frame s),
               calls := calls s @ [EmUpdate, GetDirties, SendToAll (GAME_STATE ds (frame s))]\<rparr>)"
  by (simp add: after_defs)

lemma afterDispatch_broadcast_throws:
  "em_update env (entityManager s) = (Inr (), w) \<Longrightarrow> getDirties env w = (Inr ds, w') \<Longrightarrow>
   ds \<noteq> [] \<Longrightarrow> sendToAll env (GAME_STATE ds (frame s)) (pipe s) = (Inl e, p) \<Longrightarrow>
   afterDispatch env s =
     (Inl e, s\<lparr>entityManager := w', pipe := p, actionQueue := [],
               calls := calls s @ [EmUpdate, GetDirties, SendToAll (GAME_STATE ds (frame s))]\<rparr>)"
  by (simp add: after_defs)

lemma afterDispatch_fields:
  assumes "afterDispatch env s = (r, s')"
  shows "queuedAction s' = queuedAction s" "attempts s' = attempts s" "actionQueue s' = []"
    "frame s' = (case r of Inl e \<Rightarrow> frame s | Inr u \<Rightarrow> js_incr (frame s))"
  using assms
  by (auto simp: after_defs split: prod.splits sum.splits if_splits)

lemma receive_eq:
  "forEach onPlayerAction q s =
     (Inr (), s\<lparr>actionQueue := actionQueue s @ q,
               calls := calls s @ map (\<lambda>a. Console (ReceivedAction a)) q\<rparr>)"
  by (induction q arbitrary: s)
    (simp_all add: onPlayerAction_def bnd_def modify_def console_def ret_def)

lemma noThrow_returns: "\<exists>v s'. noThrow fn s = (Inr v, s')"
  by (auto simp: noThrow_def split: prod.splits sum.splits)

lemma schedule_noThrow_returns: "fst (schedule (noThrow fn) qs s) = Inr ()"
proof (induction qs arbitrary: s)
  case Nil
  show ?case by (simp add: ret_def)
next
  case (Cons q qs)
  obtain v s1 where "noThrow fn (snd (forEach onPlayerAction q s)) = (Inr v, s1)"
    using noThrow_returns by blast
  with Cons show ?case by (simp add: receive_eq bnd_def)
qed

lemma gameLoop_Cons:
  "gameLoop env (q # qs) s = gameLoop env qs (period env q s)"
proof -
  obtain v s1 where "noThrow (tick env) (snd (forEach onPlayerAction q s)) = (Inr v, s1)"
    using noThrow_returns by blast
  then show ?thesis by (simp add: gameLoop_def period_def receive_eq bnd_def)
qed

lemma gameLoop_Nil: "gameLoop env [] s = (Inr (), s)"
  by (simp add: gameLoop_def ret_def)


lemma noneFails_forEach:
  "noneFails env ys s \<Longrightarrow> forEach (attempt env) ys s = (r, s') \<Longrightarrow>
   queuedAction s' = queuedAction s \<and>
   (\<exists>zs. attempts s' = attempts s @ map (\<lambda>b. (b, Applied)) zs)"
proof (induction ys arbitrary: s)
  case Nil
  then show ?case by (auto simp: ret_def intro: exI [of _ "[]"])
next
  case (Cons y ys)
  obtain ok s1 where h: "handlePlayerAction env y s = (ok, s1)"
    by (cases "handlePlayerAction env y s")
  have att: "attempt env y s =
      (case ok of Inl e \<Rightarrow> (Inl e, s1)
       | Inr b \<Rightarrow> (Inr (), if b then s1 else s1\<lparr>queuedAction := Some y\<rparr>))"
    using h by (simp add: attempt_def bnd_def modify_def ret_def split: sum.splits)
  from h show ?case
  proof (cases rule: handle_cases)
    case (applied i d w cs)
    with h Cons.prems att have nf: "noneFails env ys s1"
      and fe: "forEach (attempt env) ys s1 = (r, s')"
      by (simp_all add: bnd_def)
    from Cons.IH [OF nf fe] obtain zs where
      "queuedAction s' = queuedAction s1" "attempts s' = attempts s1 @ map (\<lambda>b. (b, Applied)) zs"
      by blast
    with applied show ?thesis
      by (intro conjI exI [of _ "y # zs"]) simp_all
  next
    case (contended i d cs)
    with h Cons.prems show ?thesis by simp
  next
    case (unhandled t i cs)
    with h Cons.prems show ?thesis by simp
  next
    case (thrown e w cs)
    with h Cons.prems att have "s' = s1" by (simp add: bnd_def)
    with thrown show ?thesis by (intro conjI exI [of _ "[]"]) simp_all
  qed
qed

lemma noThrow_tick_dispatch:
  assumes "update env (actionQueue s) s = (r, s1)"
  shows "queuedAction (snd (noThrow (tick env) s)) = queuedAction s1"
    and "attempts (snd (noThrow (tick env) s)) = attempts s1"
    and "actionQueue (snd (noThrow (tick env) s)) =
           (case r of Inl e \<Rightarrow> actionQueue s | Inr u \<Rightarrow> [])"
proof -
  from update_footprint [OF assms] have q: "actionQueue s1 = actionQueue s"
    by (auto simp: footprint_def)
  obtain r2 s2 where ad: "afterDispatch env s1 = (r2, s2)" by (cases "afterDispatch env s1")
  note f = afterDispatch_fields [OF ad]
  have t: "tick env s = (case r of Inl e \<Rightarrow> (Inl e, s1) | Inr u \<Rightarrow> (r2, s2))"
    using assms ad by (simp add: tick_split bnd_def split: sum.splits)
  show "queuedAction (snd (noThrow (tick env) s)) = queuedAction s1"
    using t f by (auto simp: noThrow_def split: sum.splits)
  show "attempts (snd (noThrow (tick env) s)) = attempts s1"
    using t f by (auto simp: noThrow_def split: sum.splits)
  show "actionQueue (snd (noThrow (tick env) s)) =
           (case r of Inl e \<Rightarrow> actionQueue s | Inr u \<Rightarrow> [])"
    using t f q by (auto simp: noThrow_def split: sum.splits)
qed

lemma period_footprint:
  "\<exists>new. attempts (period env q s) = attempts s @ new \<and>
     fst ` set new \<subseteq> set_option (queuedAction s) \<union> set (actionQueue s) \<union> set q \<and>
     set_option (queuedAction (period env q s)) \<union> set (actionQueue (period env q s))
       \<subseteq> set_option (queuedAction s) \<union> set (actionQueue s) \<union> set q \<and>
     (slot_inv s \<longrightarrow> slot_inv (period env q s))"
proof -
  let ?s0 = "snd (forEach onPlayerAction q s)"
  have s0: "queuedAction ?s0 = queuedAction s" "actionQueue ?s0 = actionQueue s @ q"
    "attempts ?s0 = attempts s"
    by (simp_all add: receive_eq)
  obtain r s1 where u: "update env (actionQueue ?s0) ?s0 = (r, s1)"
    by (cases "update env (actionQueue ?s0) ?s0")
  note d = noThrow_tick_dispatch [OF u]
  from update_footprint [OF u] obtain cs new where
    f: "footprint ?s0 s1 cs new"
      "fst ` set new \<subseteq> set_option (queuedAction ?s0) \<union> set (actionQueue ?s0)"
      "set_option (queuedAction s1) \<subseteq> set_option (queuedAction ?s0) \<union> set (actionQueue ?s0)"
      "slot_inv ?s0 \<longrightarrow> slot_inv s1"
    by blast
  have inv: "slot_inv ?s0 = slot_inv s" by (simp add: slot_inv_def s0 cong: option.case_cong)
  have inv': "slot_inv (period env q s) = slot_inv s1"
    by (simp add: slot_inv_def period_def d cong: option.case_cong)
  from f d s0 inv inv' show ?thesis
    by (intro exI [of _ new]) (auto simp: period_def footprint_def split: sum.splits)
qed

lemma gameLoop_footprint:
  "\<exists>new. attempts (snd (gameLoop env qs s)) = attempts s @ new \<and>
     fst ` set new \<subseteq> set_option (queuedAction s) \<union> set (actionQueue s) \<union> \<Union> (set ` set qs) \<and>
     (slot_inv s \<longrightarrow> slot_inv (snd (gameLoop env qs s)))"
proof (induction qs arbitrary: s)
  case Nil
  show ?case by (simp add: gameLoop_Nil)
next
  case (Cons q qs)
  from period_footprint [of env q s] obtain new1 where
    1: "attempts (period env q s) = attempts s @ new1"
      "fst ` set new1 \<subseteq> set_option (queuedAction s) \<union> set (actionQueue s) \<union> set q"
      "set_option (queuedAction (period env q s)) \<union> set (actionQueue (period env q s))
         \<subseteq> set_option (queuedAction s) \<union> set (actionQueue s) \<union> set q"
      "slot_inv s \<longrightarrow> slot_inv (period env q s)"
    by blast
  from Cons [of "period env q s"] obtain new2 where
    2: "attempts (snd (gameLoop env qs (period env q s))) = attempts (period env q s) @ new2"
      "fst ` set new2 \<subseteq> set_option (queuedAction (period env q s)) \<union>
         set (actionQueue (period env q s)) \<union> \<Union> (set ` set qs)"
      "slot_inv (period env q s) \<longrightarrow> slot_inv (snd (gameLoop env qs (period env q s)))"
    by blast
  have sub: "fst ` set new2 \<subseteq> set_option (queuedAction s) \<union> set (actionQueue s) \<union> set q \<union>
         \<Union> (set ` set qs)"
    using 1(3) 2(2) by blast
  from 1 2 sub show ?case
    by (intro exI [of _ "new1 @ new2"]) (auto simp: gameLoop_Cons)
qed

lemmas run_defs = tick_def update_def retryQueued_def attempt_def handlePlayerAction_def
  movePlayer_def bnd_def ret_def modify_def em_query_def em_call_def pipe_call_def console_def
  attempted_def onPlayerAction_def js_incr_def noThrow_def

lemmas sim_defs = sim_def game0_def new_Game_def world0_def pipe0_def freshId_def

section \<open>The retry-slot invariant\<close>

lemma handle_outcome:
  assumes "handlePlayerAction env a s = (r, s')"
  shows "(attempts s' = attempts s @ [(a, Contended)] \<longrightarrow>
            r = Inr False \<and> a = MoveAction (playerId a) (direction a) \<and>
            contended env (playerId a) (entityManager s))
       \<and> (attempts s' = attempts s @ [(a, Unhandled)] \<longrightarrow>
            r = Inr False \<and> a = OtherAction (tag a) (playerId a))
       \<and> (attempts s' = attempts s @ [(a, Applied)] \<longrightarrow>
            r = Inr True \<and> a = MoveAction (playerId a) (direction a) \<and>
            free env (playerId a) (entityManager s))"
  using assms by (cases rule: handle_cases) auto

text \<open>
  C9 (as amended). The retry slot is empty in a new session, and every resolve pass and
  every run of the game loop keeps this invariant: the slot is empty or holds one action,
  the action of the dispatcher's most recent attempt that failed, and that attempt failed
  as contended if the action is a move and as unhandled otherwise. An attempt fails as
  contended only for a move whose entity the spatial system reports in motion at that
  attempt, and as unhandled only for an action whose tag is not MOVE: the target of a held
  unhandled action need not be busy.
\<close>

theorem retry_slot_invariant:
  "slot_inv (new_Game w p)
   \<and> (slot_inv s \<longrightarrow> slot_inv (snd (update env actions s)))
   \<and> (slot_inv s \<longrightarrow> slot_inv (snd (gameLoop env qs s)))
   \<and> (attempts (snd (handlePlayerAction env a s)) = attempts s @ [(a, Contended)] \<longrightarrow>
        a = MoveAction (playerId a) (direction a) \<and> contended env (playerId a) (entityManager s))
   \<and> (attempts (snd (handlePlayerAction env a s)) = attempts s @ [(a, Unhandled)] \<longrightarrow>
        a = OtherAction (tag a) (playerId a))"
proof (intro conjI)
  show "slot_inv (new_Game w p)"
    by (simp add: slot_inv_def new_Game_def)
  show "slot_inv s \<longrightarrow> slot_inv (snd (update env actions s))"
    using update_footprint [of env actions s] by (cases "update env actions s") auto
  show "slot_inv s \<longrightarrow> slot_inv (snd (gameLoop env qs s))"
    using gameLoop_footprint [of env qs s] by blast
  show "attempts (snd (handlePlayerAction env a s)) = attempts s @ [(a, Contended)] \<longrightarrow>
        a = MoveAction (playerId a) (direction a) \<and> contended env (playerId a) (entityManager s)"
    using handle_outcome [of env a s] by (cases "handlePlayerAction env a s") auto
  show "attempts (snd (handlePlayerAction env a s)) = attempts s @ [(a, Unhandled)] \<longrightarrow>
        a = OtherAction (tag a) (playerId a)"
    using handle_outcome [of env a s] by (cases "handlePlayerAction env a s") auto
qed

theorem retry_slot_invariant_witness:
  "slot_inv (snd (update sim [MoveAction 1 0, OtherAction 7 2] game0))
   \<and> queuedAction (snd (update sim [MoveAction 1 0, OtherAction 7 2] game0)) = Some (OtherAction 7 2)
   \<and> slot_inv (snd (gameLoop sim [[MoveAction 1 0, MoveAction 1 1], []] game0))
   \<and> queuedAction (snd (gameLoop sim [[MoveAction 1 0, MoveAction 1 1], []] game0))
        = Some (MoveAction 1 1)
   \<and> contended sim 1 (entityManager (snd (handlePlayerAction sim (MoveAction 1 0) game0)))
   \<and> OtherAction 7 2 = OtherAction (tag (OtherAction 7 2)) (playerId (OtherAction 7 2))"
proof -
  note inv = retry_slot_invariant [where w = world0 and p = pipe0 and env = sim and s = game0
      and actions = "[MoveAction 1 0, OtherAction 7 2]"
      and qs = "[[MoveAction 1 0, MoveAction 1 1], []]" and a = "MoveAction 1 1"]
  have inv0: "slot_inv (game0 :: (sim_world, sim_pipe, nat) session)"
    using inv unfolding game0_def by blast
  have 1: "slot_inv (snd (update sim [MoveAction 1 0, OtherAction 7 2] game0))"
    using inv inv0 by blast
  have 2: "slot_inv (snd (gameLoop sim [[MoveAction 1 0, MoveAction 1 1], []] game0))"
    using inv inv0 by blast
  let ?s1 = "snd (handlePlayerAction sim (MoveAction 1 0) game0)"
  have 3: "attempts (snd (handlePlayerAction sim (MoveAction 1 1) ?s1))
      = attempts ?s1 @ [(MoveAction 1 1, Contended)]"
    by (simp add: run_defs sim_defs)
  have 4: "contended sim 1 (entityManager ?s1)"
    using retry_slot_invariant [where env = sim and s = ?s1 and a = "MoveAction 1 1"
        and w = world0 and p = pipe0 and actions = "[]" and qs = "[]"] 3
    by (simp only: PlayerAction.sel) blast
  have 5: "queuedAction (snd (update sim [MoveAction 1 0, OtherAction 7 2] game0))
      = Some (OtherAction 7 2)"
    by (simp add: run_defs sim_defs)
  have 6: "queuedAction (snd (gameLoop sim [[MoveAction 1 0, MoveAction 1 1], []] game0))
        = Some (MoveAction 1 1)"
    by (simp add: gameLoop_def run_defs sim_defs)
  from 1 2 4 5 6 show ?thesis by simp
qed

theorem unhandled_action_held_with_idle_target:
  "queuedAction (snd (update sim [OtherAction 7 1] game0)) = Some (OtherAction 7 1)
   \<and> attempts (snd (update sim [OtherAction 7 1] game0)) = [(OtherAction 7 1, Unhandled)]
   \<and> entityIsMoving sim 1 (entityManager game0) = Inr False
   \<and> entityIsMoving sim 1 (entityManager (snd (update sim [OtherAction 7 1] game0))) = Inr False"
  by (simp add: run_defs sim_defs)

section \<open>Actions that stay in the slot\<close>

lemma retryQueued_failed:
  assumes slot: "queuedAction s = Some a"
    and fail: "fst (handlePlayerAction env a s) = Inr False"
  shows "\<exists>s1. retryQueued env s = (Inr (), s1) \<and> handlePlayerAction env a s = (Inr False, s1) \<and>
     queuedAction s1 = Some a \<and> actionQueue s1 = actionQueue s \<and>
     attempts s1 = attempts s @
       [(a, failure_of a)]"
proof -
  obtain ok s1 where h: "handlePlayerAction env a s = (ok, s1)"
    by (cases "handlePlayerAction env a s")
  with fail have ok: "ok = Inr False" by simp
  have rq: "retryQueued env s = (Inr (), s1)"
    using h ok slot by (simp add: retryQueued_def bnd_def ret_def)
  from h show ?thesis
    by (cases rule: handle_cases) (use ok slot rq h in \<open>auto simp: failure_of_def\<close>)
qed

lemma period_held:
  assumes slot: "queuedAction s = Some a"
    and fail: "fst (handlePlayerAction env a (snd (forEach onPlayerAction q s))) = Inr False"
    and others: "othersDoNotFail env q s"
  shows "queuedAction (period env q s) = Some a \<and>
     (\<exists>zs. attempts (period env q s) = attempts s @
        (a, failure_of a) #
        map (\<lambda>b. (b, Applied)) zs)"
proof -
  let ?s0 = "snd (forEach onPlayerAction q s)"
  have s0: "queuedAction ?s0 = Some a" "attempts ?s0 = attempts s"
    using slot by (simp_all add: receive_eq)
  from retryQueued_failed [OF s0(1) fail] obtain s1 where
    1: "retryQueued env ?s0 = (Inr (), s1)" "queuedAction s1 = Some a"
      "attempts s1 = attempts ?s0 @
         [(a, failure_of a)]"
    by blast
  obtain r s2 where fe: "forEach (attempt env) (actionQueue ?s0) s1 = (r, s2)"
    by (cases "forEach (attempt env) (actionQueue ?s0) s1")
  from others 1(1) have nf: "noneFails env (actionQueue ?s0) s1"
    by (simp add: othersDoNotFail_def Let_def)
  from noneFails_forEach [OF nf fe] obtain zs where
    2: "queuedAction s2 = queuedAction s1"
      "attempts s2 = attempts s1 @ map (\<lambda>b. (b, Applied)) zs"
    by blast
  have u: "update env (actionQueue ?s0) ?s0 = (r, s2)"
    using 1(1) fe by (simp add: update_def bnd_def)
  note d = noThrow_tick_dispatch [OF u]
  show ?thesis
    using d 1 2 s0 by (auto simp: period_def)
qed

lemma undisturbed_held:
  "queuedAction s = Some (OtherAction t i) \<Longrightarrow> undisturbed env qs s \<Longrightarrow>
   queuedAction (snd (gameLoop env qs s)) = Some (OtherAction t i) \<and>
   (\<exists>new. attempts (snd (gameLoop env qs s)) = attempts s @ new \<and>
      filter (\<lambda>x. snd x \<noteq> Applied) new = replicate (length qs) (OtherAction t i, Unhandled))"
proof (induction qs arbitrary: s)
  case Nil
  then show ?case by (simp add: gameLoop_Nil)
next
  case (Cons q qs)
  have fail: "fst (handlePlayerAction env (OtherAction t i) (snd (forEach onPlayerAction q s)))
      = Inr False"
    by (simp add: handle_other)
  from Cons.prems have o: "othersDoNotFail env q s" and u: "undisturbed env qs (period env q s)"
    by simp_all
  from period_held [OF Cons.prems(1) fail o] obtain zs where
    1: "queuedAction (period env q s) = Some (OtherAction t i)"
      "attempts (period env q s) = attempts s @
         (OtherAction t i, Unhandled) # map (\<lambda>b. (b, Applied)) zs"
    by (auto simp: failure_of_def)
  from Cons.IH [OF 1(1) u] obtain new where
    2: "queuedAction (snd (gameLoop env qs (period env q s))) = Some (OtherAction t i)"
      "attempts (snd (gameLoop env qs (period env q s))) = attempts (period env q s) @ new"
      "filter (\<lambda>x. snd x \<noteq> Applied) new = replicate (length qs) (OtherAction t i, Unhandled)"
    by blast
  have f: "filter (\<lambda>x. snd x \<noteq> Applied) (map (\<lambda>b. (b, Applied)) zs) = []"
    by (induction zs) simp_all
  from 1 2 f show ?case
    by (intro conjI exI [of _ "(OtherAction t i, Unhandled) # map (\<lambda>b. (b, Applied)) zs @ new"])
      (simp_all add: gameLoop_Cons)
qed

text \<open>
  C8 (as amended). An action whose tag is not MOVE is never executed and never throws: each
  attempt only logs and returns false, leaving the entity manager untouched. When it is
  dequeued (the callback of the loop in update) it is placed in the retry slot. From then
  on, as long as no later attempt of a queued action fails, it stays in the slot: in every
  period of the game loop it is retried once, fails as unhandled, and is still held
  afterwards. Any later failed attempt takes the slot, not only that of a contended move:
  the callback of the loop in update stores every action whose attempt returns false, so a
  second action with an unhandled tag replaces the first, which is then not tried again.
\<close>

theorem unrecognised_action_occupies_slot:
  "handlePlayerAction env (OtherAction t i) s =
     (Inr False, s\<lparr>calls := calls s @ [Console HandlingAction],
                   attempts := attempts s @ [(OtherAction t i, Unhandled)]\<rparr>)
   \<and> attempt env (OtherAction t i) s =
     (Inr (), s\<lparr>calls := calls s @ [Console HandlingAction],
                queuedAction := Some (OtherAction t i),
                attempts := attempts s @ [(OtherAction t i, Unhandled)]\<rparr>)
   \<and> (queuedAction s = Some (OtherAction t i) \<and> undisturbed env qs s \<longrightarrow>
        queuedAction (snd (gameLoop env qs s)) = Some (OtherAction t i) \<and>
        filter (\<lambda>x. snd x \<noteq> Applied)
            (drop (length (attempts s)) (attempts (snd (gameLoop env qs s))))
          = replicate (length qs) (OtherAction t i, Unhandled))"
proof (intro conjI impI)
  show "handlePlayerAction env (OtherAction t i) s =
     (Inr False, s\<lparr>calls := calls s @ [Console HandlingAction],
                   attempts := attempts s @ [(OtherAction t i, Unhandled)]\<rparr>)"
    by (rule handle_other)
  show "attempt env (OtherAction t i) s =
     (Inr (), s\<lparr>calls := calls s @ [Console HandlingAction],
                queuedAction := Some (OtherAction t i),
                attempts := attempts s @ [(OtherAction t i, Unhandled)]\<rparr>)"
    by (simp add: attempt_def bnd_def handle_other modify_def)
next
  assume a: "queuedAction s = Some (OtherAction t i) \<and> undisturbed env qs s"
  with undisturbed_held [of s t i env qs] obtain new where
    n: "queuedAction (snd (gameLoop env qs s)) = Some (OtherAction t i)"
      "attempts (snd (gameLoop env qs s)) = attempts s @ new"
      "filter (\<lambda>x. snd x \<noteq> Applied) new = replicate (length qs) (OtherAction t i, Unhandled)"
    by blast
  show "queuedAction (snd (gameLoop env qs s)) = Some (OtherAction t i)" by (rule n(1))
  show "filter (\<lambda>x. snd x \<noteq> Applied)
            (drop (length (attempts s)) (attempts (snd (gameLoop env qs s))))
          = replicate (length qs) (OtherAction t i, Unhandled)"
    using n by simp
qed

lemmas run_defs2 = run_defs gameLoop_def period_def othersDoNotFail_def Let_def

theorem unrecognised_action_occupies_slot_witness:
  "queuedAction (snd (attempt sim (OtherAction 7 1) game0)) = Some (OtherAction 7 1)
   \<and> undisturbed sim [[MoveAction 2 0], []] (snd (attempt sim (OtherAction 7 1) game0))
   \<and> queuedAction (snd (gameLoop sim [[MoveAction 2 0], []]
        (snd (attempt sim (OtherAction 7 1) game0)))) = Some (OtherAction 7 1)
   \<and> attempts (snd (gameLoop sim [[MoveAction 2 0], []]
        (snd (attempt sim (OtherAction 7 1) game0))))
      = [(OtherAction 7 1, Unhandled), (OtherAction 7 1, Unhandled), (MoveAction 2 0, Applied),
         (OtherAction 7 1, Unhandled)]"
proof -
  let ?s = "snd (attempt sim (OtherAction 7 1) game0)"
  note t = unrecognised_action_occupies_slot [where env = sim and t = 7 and i = 1 and s = ?s
      and qs = "[[MoveAction 2 0], []]"]
  have 1: "queuedAction ?s = Some (OtherAction 7 1)"
    by (simp add: run_defs sim_defs)
  have 2: "undisturbed sim [[MoveAction 2 0], []] ?s"
    by (simp add: run_defs2 sim_defs)
  have 3: "attempts (snd (gameLoop sim [[MoveAction 2 0], []] ?s))
      = [(OtherAction 7 1, Unhandled), (OtherAction 7 1, Unhandled), (MoveAction 2 0, Applied),
         (OtherAction 7 1, Unhandled)]"
    by (simp add: run_defs2 sim_defs)
  from t 1 2 have "queuedAction (snd (gameLoop sim [[MoveAction 2 0], []] ?s))
      = Some (OtherAction 7 1)" by blast
  with 1 2 3 show ?thesis by blast
qed

theorem unhandled_action_evicted_without_contention:
  "queuedAction (snd (gameLoop sim [[OtherAction 7 1]] game0)) = Some (OtherAction 7 1)
   \<and> attempts (snd (gameLoop sim [[OtherAction 7 1]] game0)) = [(OtherAction 7 1, Unhandled)]
   \<and> queuedAction (snd (gameLoop sim [[OtherAction 7 1], [OtherAction 8 2]] game0))
     = Some (OtherAction 8 2)
   \<and> attempts (snd (gameLoop sim [[OtherAction 7 1], [OtherAction 8 2]] game0))
     = [(OtherAction 7 1, Unhandled), (OtherAction 7 1, Unhandled),
        (OtherAction 8 2, Unhandled)]
   \<and> queuedAction (snd (gameLoop sim [[OtherAction 7 1], [OtherAction 8 2], [], []] game0))
     = Some (OtherAction 8 2)
   \<and> attempts (snd (gameLoop sim [[OtherAction 7 1], [OtherAction 8 2], [], []] game0))
     = [(OtherAction 7 1, Unhandled), (OtherAction 7 1, Unhandled),
        (OtherAction 8 2, Unhandled), (OtherAction 8 2, Unhandled),
        (OtherAction 8 2, Unhandled)]"
  by (simp add: run_defs2 sim_defs)

lemma busy_through_held:
  "queuedAction s = Some (MoveAction i d) \<Longrightarrow> busy_through env i qs s \<Longrightarrow>
   queuedAction (snd (gameLoop env qs s)) = Some (MoveAction i d) \<and>
   (\<exists>new. attempts (snd (gameLoop env qs s)) = attempts s @ new \<and>
      filter (\<lambda>x. snd x \<noteq> Applied) new = replicate (length qs) (MoveAction i d, Contended))"
proof (induction qs arbitrary: s)
  case Nil
  then show ?case by (simp add: gameLoop_Nil)
next
  case (Cons q qs)
  from Cons.prems have c: "contended env i (entityManager s)"
    and o: "othersDoNotFail env q s" and u: "busy_through env i qs (period env q s)"
    by simp_all
  have "contended env i (entityManager (snd (forEach onPlayerAction q s)))"
    using c by (simp add: receive_eq)
  then have fail: "fst (handlePlayerAction env (MoveAction i d) (snd (forEach onPlayerAction q s)))
      = Inr False"
    by (simp add: handle_contended)
  from period_held [OF Cons.prems(1) fail o] obtain zs where
    1: "queuedAction (period env q s) = Some (MoveAction i d)"
      "attempts (period env q s) = attempts s @
         (MoveAction i d, Contended) # map (\<lambda>b. (b, Applied)) zs"
    by (auto simp: failure_of_def)
  from Cons.IH [OF 1(1) u] obtain new where
    2: "queuedAction (snd (gameLoop env qs (period env q s))) = Some (MoveAction i d)"
      "attempts (snd (gameLoop env qs (period env q s))) = attempts (period env q s) @ new"
      "filter (\<lambda>x. snd x \<noteq> Applied) new = replicate (length qs) (MoveAction i d, Contended)"
    by blast
  have f: "filter (\<lambda>x. snd x \<noteq> Applied) (map (\<lambda>b. (b, Applied)) zs) = []"
    by (induction zs) simp_all
  from 1 2 f show ?case
    by (intro conjI exI [of _ "(MoveAction i d, Contended) # map (\<lambda>b. (b, Applied)) zs @ new"])
      (simp_all add: gameLoop_Cons)
qed

lemma afterDispatch_calls:
  assumes "afterDispatch env s = (r, s')"
  shows "\<exists>cs. calls s' = calls s @ cs"
  using assms
  by (auto simp: after_defs split: prod.splits sum.splits if_splits)

lemma noThrow_tick_calls:
  assumes "update env (actionQueue s) s = (r, s1)"
  shows "\<exists>cs. calls (snd (noThrow (tick env) s)) = calls s1 @ cs"
proof -
  obtain r2 s2 where ad: "afterDispatch env s1 = (r2, s2)" by (cases "afterDispatch env s1")
  from afterDispatch_calls [OF ad] obtain cs where c: "calls s2 = calls s1 @ cs" by blast
  have t: "tick env s = (case r of Inl e \<Rightarrow> (Inl e, s1) | Inr u \<Rightarrow> (r2, s2))"
    using assms ad by (simp add: tick_split bnd_def split: sum.splits)
  show ?thesis
    using t c by (auto simp: noThrow_def split: sum.splits)
qed

lemma period_released:
  assumes slot: "queuedAction s = Some (MoveAction i d)"
    and free: "free env i (entityManager s)"
    and mv: "fst (moveEntity env i d (entityManager s)) = Inr ()"
    and others: "othersDoNotFail env q s"
  shows "queuedAction (period env q s) = None \<and>
     (\<exists>zs. attempts (period env q s) = attempts s @
        (MoveAction i d, Applied) # map (\<lambda>b. (b, Applied)) zs) \<and>
     MoveEntity i d \<in> set (drop (length (calls s)) (calls (period env q s)))"
proof -
  let ?s0 = "snd (forEach onPlayerAction q s)"
  let ?a = "MoveAction i d"
  have s0: "queuedAction ?s0 = Some ?a" "attempts ?s0 = attempts s"
    "entityManager ?s0 = entityManager s"
    "calls ?s0 = calls s @ map (\<lambda>a. Console (ReceivedAction a)) q"
    using slot by (simp_all add: receive_eq)
  obtain w where w: "moveEntity env i d (entityManager ?s0) = (Inr (), w)"
    using mv s0(3) by (cases "moveEntity env i d (entityManager s)") auto
  have f0: "free env i (entityManager ?s0)" using free s0(3) by simp
  note h = handle_free [OF f0 w]
  let ?s1 = "?s0\<lparr>entityManager := w,
        calls := calls ?s0 @ [Console HandlingAction, GetSystem PHYSICS, GetSystem SPATIAL,
                              EntityIsMoving i, MoveEntity i d],
        attempts := attempts ?s0 @ [(?a, Applied)], queuedAction := None\<rparr>"
  have rq: "retryQueued env ?s0 = (Inr (), ?s1)"
    using h s0(1) by (simp add: retryQueued_def bnd_def modify_def)
  obtain r s2 where fe: "forEach (attempt env) (actionQueue ?s0) ?s1 = (r, s2)"
    by (cases "forEach (attempt env) (actionQueue ?s0) ?s1")
  from others rq have nf: "noneFails env (actionQueue ?s0) ?s1"
    by (simp add: othersDoNotFail_def Let_def)
  from noneFails_forEach [OF nf fe] obtain zs where
    2: "queuedAction s2 = queuedAction ?s1"
      "attempts s2 = attempts ?s1 @ map (\<lambda>b. (b, Applied)) zs"
    by blast
  from forEach_attempt [OF fe] obtain cs where c2: "calls s2 = calls ?s1 @ cs"
    by (auto simp: footprint_def)
  have u: "update env (actionQueue ?s0) ?s0 = (r, s2)"
    using rq fe by (simp add: update_def bnd_def)
  note d = noThrow_tick_dispatch [OF u]
  from noThrow_tick_calls [OF u] obtain cs3 where
    c3: "calls (period env q s) = calls s2 @ cs3"
    by (auto simp: period_def)
  show ?thesis
    using d 2 s0 c2 c3 by (auto simp: period_def)
qed

text \<open>
  C2 (as amended). A move action attempted while its entity is not in motion commands the
  physics system to begin the move and succeeds at once; the attempt does not touch the
  retry slot. A move action dequeued while its entity is in motion fails and is placed in
  the retry slot. From then on, provided no later attempt of a queued action fails (a
  failed attempt would take the slot), the held action is retried once in every period in
  which the entity is still in motion, failing as contended and staying held; in the first
  period in which the entity is no longer in motion the retry commands the move, succeeds,
  and the slot is empty after that period.
\<close>

theorem move_action_applied_or_retried:
  "(free env i (entityManager s) \<and> moveEntity env i d (entityManager s) = (Inr (), w) \<longrightarrow>
      handlePlayerAction env (MoveAction i d) s =
        (Inr True,
         s\<lparr>entityManager := w,
           calls := calls s @ [Console HandlingAction, GetSystem PHYSICS, GetSystem SPATIAL,
                                 EntityIsMoving i, MoveEntity i d],
           attempts := attempts s @ [(MoveAction i d, Applied)]\<rparr>))
   \<and> (contended env i (entityManager s) \<longrightarrow>
      attempt env (MoveAction i d) s =
        (Inr (),
         s\<lparr>calls := calls s @ [Console HandlingAction, GetSystem PHYSICS, GetSystem SPATIAL,
                                 EntityIsMoving i],
           queuedAction := Some (MoveAction i d),
           attempts := attempts s @ [(MoveAction i d, Contended)]\<rparr>))
   \<and> (queuedAction s = Some (MoveAction i d) \<and> busy_through env i qs s \<longrightarrow>
      queuedAction (snd (gameLoop env qs s)) = Some (MoveAction i d) \<and>
      filter (\<lambda>x. snd x \<noteq> Applied)
          (drop (length (attempts s)) (attempts (snd (gameLoop env qs s))))
        = replicate (length qs) (MoveAction i d, Contended))
   \<and> (queuedAction s = Some (MoveAction i d) \<and> busy_through env i qs s \<and>
      free env i (entityManager (snd (gameLoop env qs s))) \<and>
      fst (moveEntity env i d (entityManager (snd (gameLoop env qs s)))) = Inr () \<and>
      othersDoNotFail env q (snd (gameLoop env qs s)) \<longrightarrow>
      queuedAction (period env q (snd (gameLoop env qs s))) = None \<and>
      (MoveAction i d, Applied) \<in> set (drop (length (attempts (snd (gameLoop env qs s))))
          (attempts (period env q (snd (gameLoop env qs s))))) \<and>
      MoveEntity i d \<in> set (drop (length (calls (snd (gameLoop env qs s))))
          (calls (period env q (snd (gameLoop env qs s))))))"
proof (intro conjI impI)
  assume "free env i (entityManager s) \<and> moveEntity env i d (entityManager s) = (Inr (), w)"
  then show "handlePlayerAction env (MoveAction i d) s =
        (Inr True,
         s\<lparr>entityManager := w,
           calls := calls s @ [Console HandlingAction, GetSystem PHYSICS, GetSystem SPATIAL,
                                 EntityIsMoving i, MoveEntity i d],
           attempts := attempts s @ [(MoveAction i d, Applied)]\<rparr>)"
    by (simp add: handle_free)
next
  assume "contended env i (entityManager s)"
  then show "attempt env (MoveAction i d) s =
        (Inr (),
         s\<lparr>calls := calls s @ [Console HandlingAction, GetSystem PHYSICS, GetSystem SPATIAL,
                                 EntityIsMoving i],
           queuedAction := Some (MoveAction i d),
           attempts := attempts s @ [(MoveAction i d, Contended)]\<rparr>)"
    by (simp add: attempt_def bnd_def handle_contended modify_def)
next
  assume a: "queuedAction s = Some (MoveAction i d) \<and> busy_through env i qs s"
  with busy_through_held [of s i d env qs] obtain new where
    n: "queuedAction (snd (gameLoop env qs s)) = Some (MoveAction i d)"
      "attempts (snd (gameLoop env qs s)) = attempts s @ new"
      "filter (\<lambda>x. snd x \<noteq> Applied) new = replicate (length qs) (MoveAction i d, Contended)"
    by blast
  show "queuedAction (snd (gameLoop env qs s)) = Some (MoveAction i d)" by (rule n(1))
  show "filter (\<lambda>x. snd x \<noteq> Applied)
          (drop (length (attempts s)) (attempts (snd (gameLoop env qs s))))
        = replicate (length qs) (MoveAction i d, Contended)"
    using n by simp
next
  let ?t = "snd (gameLoop env qs s)"
  assume a: "queuedAction s = Some (MoveAction i d) \<and> busy_through env i qs s \<and>
      free env i (entityManager ?t) \<and>
      fst (moveEntity env i d (entityManager ?t)) = Inr () \<and>
      othersDoNotFail env q ?t"
  with busy_through_held [of s i d env qs] have slot: "queuedAction ?t = Some (MoveAction i d)"
    by blast
  from a have f: "free env i (entityManager ?t)"
    and mv: "fst (moveEntity env i d (entityManager ?t)) = Inr ()"
    and o: "othersDoNotFail env q ?t"
    by simp_all
  from period_released [OF slot f mv o] obtain zs where
    r: "queuedAction (period env q ?t) = None"
      "attempts (period env q ?t) = attempts ?t @
         (MoveAction i d, Applied) # map (\<lambda>b. (b, Applied)) zs"
      "MoveEntity i d \<in> set (drop (length (calls ?t)) (calls (period env q ?t)))"
    by blast
  show "queuedAction (period env q ?t) = None" by (rule r(1))
  show "(MoveAction i d, Applied) \<in> set (drop (length (attempts ?t))
          (attempts (period env q ?t)))"
    using r(2) by simp
  show "MoveEntity i d \<in> set (drop (length (calls ?t)) (calls (period env q ?t)))"
    by (rule r(3))
qed


theorem move_action_applied_or_retried_witness:
  "free sim 1 (entityManager game0)
   \<and> fst (handlePlayerAction sim (MoveAction 1 0) game0) = Inr True
   \<and> contended sim 1 (entityManager (snd (handlePlayerAction sim (MoveAction 1 0) game0)))
   \<and> queuedAction (period sim [MoveAction 1 0, MoveAction 1 1] game0) = Some (MoveAction 1 1)
   \<and> busy_through sim 1 [[], []] (period sim [MoveAction 1 0, MoveAction 1 1] game0)
   \<and> queuedAction (snd (gameLoop sim [[], []] (period sim [MoveAction 1 0, MoveAction 1 1] game0)))
        = Some (MoveAction 1 1)
   \<and> free sim 1 (entityManager
        (snd (gameLoop sim [[], []] (period sim [MoveAction 1 0, MoveAction 1 1] game0))))
   \<and> queuedAction (period sim []
        (snd (gameLoop sim [[], []] (period sim [MoveAction 1 0, MoveAction 1 1] game0)))) = None"
proof -
  let ?w = "world0\<lparr>moving := [(1, 3)]\<rparr>"
  let ?s1 = "snd (handlePlayerAction sim (MoveAction 1 0) game0)"
  let ?s = "period sim [MoveAction 1 0, MoveAction 1 1] game0"
  let ?t = "snd (gameLoop sim [[], []] ?s)"
  have f0: "free sim 1 (entityManager game0)"
    by (simp add: free_def sim_defs)
  have m0: "moveEntity sim 1 0 (entityManager game0) = (Inr (), ?w)"
    by (simp add: sim_defs)
  have 1: "fst (handlePlayerAction sim (MoveAction 1 0) game0) = Inr True"
    using move_action_applied_or_retried [where env = sim and i = 1 and d = 0 and s = game0
        and w = ?w and qs = "[]" and q = "[]"] f0 m0
    by simp
  have c1: "contended sim 1 (entityManager ?s1)"
    by (simp add: contended_def run_defs sim_defs)
  have slot: "queuedAction ?s = Some (MoveAction 1 1)"
    by (simp add: run_defs2 sim_defs)
  have busy: "busy_through sim 1 [[], []] ?s"
    by (simp add: contended_def run_defs2 sim_defs)
  have free: "free sim 1 (entityManager ?t)"
    by (simp add: free_def run_defs2 sim_defs)
  have mv: "fst (moveEntity sim 1 1 (entityManager ?t)) = Inr ()"
    by (simp add: sim_def)
  have oth: "othersDoNotFail sim [] ?t"
    by (simp add: run_defs2 sim_defs)
  note t = move_action_applied_or_retried [where env = sim and i = 1 and d = 1 and s = ?s
      and w = ?w and qs = "[[], []]" and q = "[]"]
  from t slot busy have held: "queuedAction ?t = Some (MoveAction 1 1)" by blast
  from t slot busy free mv oth have rel: "queuedAction (period sim [] ?t) = None" by blast
  from f0 1 c1 slot busy held free rel show ?thesis by blast
qed

theorem overwritten_move_never_retried:
  "attempts (snd (gameLoop sim
      [[MoveAction 1 0, MoveAction 2 0], [MoveAction 1 1, MoveAction 2 1], [], [], []] game0))
     = [(MoveAction 1 0, Applied), (MoveAction 2 0, Applied), (MoveAction 1 1, Contended),
        (MoveAction 2 1, Contended), (MoveAction 2 1, Contended), (MoveAction 2 1, Applied)]
   \<and> queuedAction (snd (gameLoop sim
      [[MoveAction 1 0, MoveAction 2 0], [MoveAction 1 1, MoveAction 2 1], [], [], []] game0))
     = None
   \<and> entityIsMoving sim 1 (entityManager (snd (gameLoop sim
      [[MoveAction 1 0, MoveAction 2 0], [MoveAction 1 1, MoveAction 2 1], [], [], []] game0)))
     = Inr False"
  by (simp add: run_defs2 sim_defs)

section \<open>Last write wins\<close>

lemma update_last_write:
  assumes held: "queuedAction s = Some A"
    and againA: "handlePlayerAction env A s = (Inr False, s1)"
    and before: "forEach (attempt env) xs s1 = (Inr (), s2)"
    and failB: "handlePlayerAction env B s2 = (Inr False, s3)"
    and after: "noneFails env ys (s3\<lparr>queuedAction := Some B\<rparr>)"
  shows "\<exists>r s4. update env (xs @ B # ys) s = (r, s4) \<and> queuedAction s4 = Some B"
proof -
  have rq: "retryQueued env s = (Inr (), s1)"
    using held againA by (simp add: retryQueued_def bnd_def ret_def)
  have aB: "attempt env B s2 = (Inr (), s3\<lparr>queuedAction := Some B\<rparr>)"
    using failB by (simp add: attempt_def bnd_def modify_def)
  obtain r s4 where fe: "forEach (attempt env) ys (s3\<lparr>queuedAction := Some B\<rparr>) = (r, s4)"
    by (cases "forEach (attempt env) ys (s3\<lparr>queuedAction := Some B\<rparr>)")
  from noneFails_forEach [OF after fe] have slot: "queuedAction s4 = Some B" by simp
  have "forEach (attempt env) (xs @ B # ys) s1 = (r, s4)"
    using before aB fe by (simp add: forEach_append bnd_def)
  with rq have "update env (xs @ B # ys) s = (r, s4)"
    by (simp add: update_def bnd_def)
  with slot show ?thesis by blast
qed

text \<open>
  C1 (as amended). Let action A be held in the retry slot at the start of a tick and fail
  again when it is retried, and let B be an action of that tick's queue that also fails
  when it is attempted, with no action after B in the queue failing. Then the slot holds B
  after the dispatcher's resolve pass and at the end of the tick. If moreover B is not A
  and A is neither in that queue nor among the actions received later, the dispatcher
  never attempts A again, in any number of later periods.
\<close>

theorem retry_slot_last_write_wins:
  assumes held: "queuedAction s = Some A"
    and queue: "actionQueue s = xs @ B # ys"
    and againA: "handlePlayerAction env A s = (Inr False, s1)"
    and before: "forEach (attempt env) xs s1 = (Inr (), s2)"
    and failB: "handlePlayerAction env B s2 = (Inr False, s3)"
    and after: "noneFails env ys (s3\<lparr>queuedAction := Some B\<rparr>)"
  shows "queuedAction (snd (update env (actionQueue s) s)) = Some B
    \<and> queuedAction (snd (noThrow (tick env) s)) = Some B
    \<and> (A \<noteq> B \<and> A \<notin> set xs \<and> A \<notin> set ys \<and> (\<forall>q\<in>set qs. A \<notin> set q) \<longrightarrow>
         A \<notin> fst ` set (drop (length (attempts (snd (noThrow (tick env) s))))
           (attempts (snd (gameLoop env qs (snd (noThrow (tick env) s)))))))"
proof -
  let ?t = "snd (noThrow (tick env) s)"
  from update_last_write [OF held againA before failB after] queue obtain r s4 where
    u: "update env (actionQueue s) s = (r, s4)" and slot: "queuedAction s4 = Some B"
    by auto
  note d = noThrow_tick_dispatch [OF u]
  have 1: "queuedAction (snd (update env (actionQueue s) s)) = Some B"
    using u slot by simp
  have 2: "queuedAction ?t = Some B" using d(1) slot by simp
  have q: "set (actionQueue ?t) \<subseteq> set xs \<union> {B} \<union> set ys"
    using d(3) queue by (auto split: sum.splits)
  have 3: "A \<notin> fst ` set (drop (length (attempts ?t)) (attempts (snd (gameLoop env qs ?t))))"
    if a: "A \<noteq> B \<and> A \<notin> set xs \<and> A \<notin> set ys \<and> (\<forall>q\<in>set qs. A \<notin> set q)"
  proof -
    from gameLoop_footprint [of env qs ?t] obtain new where
      n: "attempts (snd (gameLoop env qs ?t)) = attempts ?t @ new"
        "fst ` set new \<subseteq> set_option (queuedAction ?t) \<union> set (actionQueue ?t) \<union> \<Union> (set ` set qs)"
      by blast
    from n(2) 2 q a have "A \<notin> fst ` set new" by auto
    with n(1) show ?thesis by simp
  qed
  from 1 2 3 show ?thesis by blast
qed

theorem retry_slot_last_write_wins_witness:
  "queuedAction game_contended = Some (MoveAction 1 1)
   \<and> actionQueue game_contended = [MoveAction 2 1, MoveAction 3 1]
   \<and> fst (handlePlayerAction sim (MoveAction 1 1) game_contended) = Inr False
   \<and> fst (handlePlayerAction sim (MoveAction 3 1)
        (snd (forEach (attempt sim) [MoveAction 2 1]
          (snd (handlePlayerAction sim (MoveAction 1 1) game_contended))))) = Inr False
   \<and> queuedAction (snd (update sim (actionQueue game_contended) game_contended))
        = Some (MoveAction 3 1)
   \<and> queuedAction (snd (noThrow (tick sim) game_contended)) = Some (MoveAction 3 1)
   \<and> MoveAction 1 1 \<notin> fst ` set (drop (length (attempts (snd (noThrow (tick sim) game_contended))))
        (attempts (snd (gameLoop sim [[], [MoveAction 2 0]]
           (snd (noThrow (tick sim) game_contended))))))"
proof -
  let ?s = game_contended
  let ?A = "MoveAction 1 1"
  let ?B = "MoveAction 3 1"
  let ?s1 = "snd (handlePlayerAction sim ?A ?s)"
  let ?s2 = "snd (forEach (attempt sim) [MoveAction 2 1] ?s1)"
  let ?s3 = "snd (handlePlayerAction sim ?B ?s2)"
  have held: "queuedAction ?s = Some ?A"
    by (simp add: game_contended_def receive_eq run_defs2 sim_defs)
  have queue: "actionQueue ?s = [MoveAction 2 1] @ ?B # []"
    by (simp add: game_contended_def receive_eq run_defs2 sim_defs)
  have againA: "handlePlayerAction sim ?A ?s = (Inr False, ?s1)"
    by (simp add: game_contended_def receive_eq run_defs2 sim_defs)
  have before: "forEach (attempt sim) [MoveAction 2 1] ?s1 = (Inr (), ?s2)"
    by (simp add: game_contended_def receive_eq run_defs2 sim_defs)
  have failB: "handlePlayerAction sim ?B ?s2 = (Inr False, ?s3)"
    by (simp add: game_contended_def receive_eq run_defs2 sim_defs)
  have after: "noneFails sim [] (?s3\<lparr>queuedAction := Some ?B\<rparr>)"
    by simp
  note t = retry_slot_last_write_wins [OF held queue againA before failB after,
      where qs = "[[], [MoveAction 2 0]]"]
  have fa: "fst (handlePlayerAction sim ?A ?s) = Inr False"
    using againA by (metis fst_conv)
  have fb: "fst (handlePlayerAction sim ?B ?s2) = Inr False"
    using failB by (metis fst_conv)
  have q: "actionQueue ?s = [MoveAction 2 1, MoveAction 3 1]"
    using queue by simp
  have n: "?A \<noteq> ?B \<and> ?A \<notin> set [MoveAction 2 1] \<and> ?A \<notin> set [] \<and>
      (\<forall>q\<in>set [[], [MoveAction 2 0]]. ?A \<notin> set q)"
    by simp
  from t n held q fa fb show ?thesis by blast
qed

theorem earlier_failure_overwritten:
  "queuedAction game_contended = Some (MoveAction 1 1)
   \<and> fst (handlePlayerAction sim (MoveAction 1 1) game_contended) = Inr False
   \<and> actionQueue game_contended = [MoveAction 2 1, MoveAction 3 1]
   \<and> fst (handlePlayerAction sim (MoveAction 2 1)
        (snd (retryQueued sim game_contended))) = Inr False
   \<and> queuedAction (snd (update sim (actionQueue game_contended) game_contended))
        = Some (MoveAction 3 1)"
  by (simp add: game_contended_def receive_eq run_defs2 sim_defs)

section \<open>The frame counter\<close>

lemma tick_after_dispatch:
  "update env (actionQueue s) s = (Inr (), s1) \<Longrightarrow> tick env s = afterDispatch env s1"
  by (simp add: tick_split bnd_def)

lemma tick_dispatch_throws:
  "update env (actionQueue s) s = (Inl e, s1) \<Longrightarrow> tick env s = (Inl e, s1)"
  by (simp add: tick_split bnd_def)

lemma tick_frame:
  "frame (snd (tick env s)) =
     (case fst (tick env s) of Inl e \<Rightarrow> frame s | Inr u \<Rightarrow> js_incr (frame s))"
proof -
  obtain r s1 where u: "update env (actionQueue s) s = (r, s1)"
    by (cases "update env (actionQueue s) s")
  from update_footprint [OF u] have f: "frame s1 = frame s"
    by (auto simp: footprint_def)
  show ?thesis
  proof (cases r)
    case (Inl e)
    with u f show ?thesis by (simp add: tick_dispatch_throws)
  next
    case (Inr v)
    obtain r2 s2 where ad: "afterDispatch env s1 = (r2, s2)" by (cases "afterDispatch env s1")
    from Inr u ad f afterDispatch_fields(4) [OF ad] show ?thesis
      by (simp add: tick_after_dispatch split: sum.splits)
  qed
qed

lemma period_frame:
  "frame (period env q s) =
     (case fst (tick env (snd (forEach onPlayerAction q s))) of
        Inl e \<Rightarrow> frame s | Inr u \<Rightarrow> js_incr (frame s))"
proof -
  let ?s0 = "snd (forEach onPlayerAction q s)"
  have f0: "frame ?s0 = frame s" by (simp add: receive_eq)
  have "frame (snd (noThrow (tick env) ?s0)) = frame (snd (tick env ?s0))"
    by (cases "tick env ?s0") (auto simp: noThrow_def split: sum.splits)
  with f0 tick_frame [of env ?s0] show ?thesis by (simp add: period_def split: sum.splits)
qed

lemma successes_Cons:
  "successes env (q # qs) s =
     (case fst (tick env (snd (forEach onPlayerAction q s))) of Inl e \<Rightarrow> 0 | Inr u \<Rightarrow> 1)
       + successes env qs (period env q s)"
  by (cases "tick env (snd (forEach onPlayerAction q s))")
    (auto simp: period_def noThrow_def split: sum.splits)

lemma gameLoop_frame:
  "frame s + successes env qs s \<le> 2 ^ 53 \<Longrightarrow>
   frame (snd (gameLoop env qs s)) = frame s + successes env qs s"
proof (induction qs arbitrary: s)
  case Nil
  show ?case by (simp add: gameLoop_Nil)
next
  case (Cons q qs)
  let ?r = "fst (tick env (snd (forEach onPlayerAction q s)))"
  show ?case
  proof (cases ?r)
    case (Inl e)
    with Cons.prems have "frame (period env q s) = frame s"
      "frame (period env q s) + successes env qs (period env q s) \<le> 2 ^ 53"
      by (simp_all add: period_frame successes_Cons del: successes.simps)
    with Cons.IH [of "period env q s"] Inl show ?thesis
      by (simp add: gameLoop_Cons successes_Cons del: successes.simps)
  next
    case (Inr u)
    with Cons.prems have lt: "frame s < 2 ^ 53"
      by (simp add: successes_Cons del: successes.simps)
    with Inr have f: "frame (period env q s) = frame s + 1"
      by (simp add: period_frame js_incr_def)
    with Cons.prems Inr have "frame (period env q s) + successes env qs (period env q s) \<le> 2 ^ 53"
      by (simp add: successes_Cons del: successes.simps)
    with Cons.IH [of "period env q s"] Inr f show ?thesis
      by (simp add: gameLoop_Cons successes_Cons del: successes.simps)
  qed
qed

text \<open>
  C4 (as amended). The frame counter of a new session is 0. A tick that completes increments it by
  exactly one, whatever the dirty set was and whether or not a broadcast was made, and a
  tick that throws leaves it as it was; so after any run of the game loop the counter
  has grown by the number of ticks that completed. The counter is a JavaScript number:
  the statement is for counts up to \<open>2^53\<close>, the range in which such a number counts
  exactly.
\<close>

theorem frame_counts_successful_ticks:
  "frame (new_Game w p) = 0
   \<and> (tick env s = (Inr (), s') \<and> frame s < 2 ^ 53 \<longrightarrow> frame s' = frame s + 1)
   \<and> (frame s + successes env qs s \<le> 2 ^ 53 \<longrightarrow>
        frame (snd (gameLoop env qs s)) = frame s + successes env qs s)"
proof (intro conjI impI)
  show "frame (new_Game w p) = 0" by (simp add: new_Game_def)
next
  assume "tick env s = (Inr (), s') \<and> frame s < 2 ^ 53"
  with tick_frame [of env s] show "frame s' = frame s + 1"
    by (simp add: js_incr_def)
next
  assume "frame s + successes env qs s \<le> 2 ^ 53"
  then show "frame (snd (gameLoop env qs s)) = frame s + successes env qs s"
    by (rule gameLoop_frame)
qed

theorem frame_counts_successful_ticks_witness:
  "fst (tick sim game0) = Inr ()
   \<and> frame (snd (tick sim game0)) = 1
   \<and> successes sim [[], [MoveAction 1 0], []] game0 = 3
   \<and> frame (snd (gameLoop sim [[], [MoveAction 1 0], []] game0)) = 3
   \<and> successes sim_advance_throws [[], [MoveAction 1 0]] game0 = 0
   \<and> frame (snd (gameLoop sim_advance_throws [[], [MoveAction 1 0]] game0)) = 0"
proof -
  have t: "tick sim game0 = (Inr (), snd (tick sim game0))"
    by (simp add: run_defs sim_defs)
  have f0: "frame game0 < 2 ^ 53" by (simp add: sim_defs)
  have 1: "frame (snd (tick sim game0)) = 1"
    using frame_counts_successful_ticks [where env = sim and s = game0 and w = world0
        and p = pipe0 and s' = "snd (tick sim game0)" and qs = "[]"] t f0
    by (simp add: sim_defs)
  have s3: "successes sim [[], [MoveAction 1 0], []] game0 = 3"
    by (simp add: run_defs2 sim_defs)
  have s0: "successes sim_advance_throws [[], [MoveAction 1 0]] game0 = 0"
    by (simp add: run_defs2 sim_defs sim_advance_throws_def)
  have 3: "frame (snd (gameLoop sim [[], [MoveAction 1 0], []] game0)) = 3"
    using frame_counts_successful_ticks [where env = sim and s = game0 and w = world0
        and p = pipe0 and s' = game0 and qs = "[[], [MoveAction 1 0], []]"] s3
    by (simp add: sim_defs)
  have 0: "frame (snd (gameLoop sim_advance_throws [[], [MoveAction 1 0]] game0)) = 0"
    using frame_counts_successful_ticks [where env = sim_advance_throws and s = game0
        and w = world0 and p = pipe0 and s' = game0 and qs = "[[], [MoveAction 1 0]]"] s0
    by (simp add: sim_defs)
  from t 1 s3 3 s0 0 show ?thesis by (metis fst_conv)
qed

theorem frame_counter_saturates:
  "fst (tick sim (game0\<lparr>frame := 2 ^ 53\<rparr>)) = Inr ()
   \<and> frame (snd (tick sim (game0\<lparr>frame := 2 ^ 53\<rparr>))) = 2 ^ 53"
  by (simp add: run_defs sim_defs)

section \<open>The broadcast of a tick\<close>

text \<open>
  C6. In a tick whose dispatch and advance complete and whose read of the dirty set returns
  \<open>ds\<close>: if \<open>ds\<close> is empty the tick makes no call on the pipe at all and leaves it as
  it was; otherwise the only call the tick makes on the pipe is one broadcast
  (\<^verbatim>\<open>sendToAll\<close>, which reaches every connection of the registry) of the GAME_STATE
  message that carries exactly \<open>ds\<close> and the frame number the session had when the tick
  began, which is still its frame number when the message is sent.
\<close>

theorem tick_broadcasts_iff_dirty:
  assumes dispatch: "update env (actionQueue s) s = (Inr (), s1)"
    and advance: "em_update env (entityManager s1) = (Inr (), w)"
    and dirties: "getDirties env w = (Inr ds, w')"
  shows "filter is_pipe_call (drop (length (calls s)) (calls (snd (tick env s))))
       = (if ds = [] then [] else [SendToAll (GAME_STATE ds (frame s))])
    \<and> pipe (snd (tick env s))
       = (if ds = [] then pipe s else snd (sendToAll env (GAME_STATE ds (frame s)) (pipe s)))
    \<and> frame s1 = frame s"
proof -
  from update_footprint [OF dispatch] obtain cs where
    f: "calls s1 = calls s @ cs" "\<forall>c\<in>set cs. \<not> is_pipe_call c" "pipe s1 = pipe s"
      "frame s1 = frame s"
    by (auto simp: footprint_def)
  have none: "filter is_pipe_call cs = []" using f(2) by (induction cs) auto
  note t = tick_after_dispatch [OF dispatch]
  show ?thesis
  proof (cases "ds = []")
    case True
    with afterDispatch_clean [OF advance] dirties t f none show ?thesis by simp
  next
    case False
    obtain r p where st: "sendToAll env (GAME_STATE ds (frame s1)) (pipe s1) = (r, p)"
      by (cases "sendToAll env (GAME_STATE ds (frame s1)) (pipe s1)")
    show ?thesis
    proof (cases r)
      case (Inl e)
      with afterDispatch_broadcast_throws [OF advance dirties False] st t f none False
      show ?thesis by simp
    next
      case (Inr u)
      with afterDispatch_broadcast [OF advance dirties False] st t f none False
      show ?thesis by simp
    qed
  qed
qed

theorem tick_broadcasts_iff_dirty_witness:
  "fst (update sim (actionQueue game0) game0) = Inr ()
   \<and> filter is_pipe_call (calls (snd (tick sim game0))) = []
   \<and> pipe (snd (tick sim game0)) = pipe0
   \<and> filter is_pipe_call (calls (snd (tick sim (game0\<lparr>actionQueue := [MoveAction 1 0]\<rparr>))))
        = [SendToAll (GAME_STATE [ComponentPacket 1 SPATIAL 3] 0)]
   \<and> delivered (pipe (snd (tick sim (game0\<lparr>actionQueue := [MoveAction 1 0]\<rparr>))))
        = [(1, GAME_STATE [ComponentPacket 1 SPATIAL 3] 0),
           (2, GAME_STATE [ComponentPacket 1 SPATIAL 3] 0)]"
proof -
  let ?s = "game0\<lparr>actionQueue := [MoveAction 1 0]\<rparr>"
  let ?w = "world0\<lparr>moving := [(1, 3)]\<rparr>"
  have d0: "update sim (actionQueue game0) game0 = (Inr (), game0)"
    by (simp add: run_defs sim_defs)
  have a0: "em_update sim (entityManager game0) = (Inr (), world0)"
    by (simp add: sim_defs)
  have g0: "getDirties sim world0 = (Inr [], world0)"
    by (simp add: sim_defs)
  note t0 = tick_broadcasts_iff_dirty [OF d0 a0 g0]
  have d1: "update sim (actionQueue ?s) ?s = (Inr (), snd (update sim (actionQueue ?s) ?s))"
    by (simp add: run_defs sim_defs)
  have a1: "em_update sim (entityManager (snd (update sim (actionQueue ?s) ?s)))
      = (Inr (), ?w\<lparr>moving := [(1, 2)], dirty := [ComponentPacket 1 SPATIAL 3]\<rparr>)"
    by (simp add: run_defs sim_defs)
  have g1: "getDirties sim (?w\<lparr>moving := [(1, 2)], dirty := [ComponentPacket 1 SPATIAL 3]\<rparr>)
      = (Inr [ComponentPacket 1 SPATIAL 3], ?w\<lparr>moving := [(1, 2)], dirty := []\<rparr>)"
    by (simp add: sim_defs)
  note t1 = tick_broadcasts_iff_dirty [OF d1 a1 g1]
  have c0: "calls game0 = []" "calls ?s = []" "frame ?s = 0" "pipe ?s = pipe0" "pipe game0 = pipe0"
    by (simp_all add: sim_defs)
  have 1: "filter is_pipe_call (calls (snd (tick sim game0))) = []"
    using t0 c0 by simp
  have 2: "pipe (snd (tick sim game0)) = pipe0"
    using t0 c0 by simp
  have 3: "filter is_pipe_call (calls (snd (tick sim ?s)))
        = [SendToAll (GAME_STATE [ComponentPacket 1 SPATIAL 3] 0)]"
    using t1 c0 by simp
  have "pipe (snd (tick sim ?s))
      = snd (sendToAll sim (GAME_STATE [ComponentPacket 1 SPATIAL 3] 0) pipe0)"
    using t1 c0 by simp
  then have 4: "delivered (pipe (snd (tick sim ?s)))
        = [(1, GAME_STATE [ComponentPacket 1 SPATIAL 3] 0),
           (2, GAME_STATE [ComponentPacket 1 SPATIAL 3] 0)]"
    by (simp add: sim_defs)
  from d0 1 2 3 4 show ?thesis by simp
qed

section \<open>A tick that throws\<close>

lemma noThrow_caught:
  "fn s = (Inl e, s') \<Longrightarrow>
   noThrow fn s = (Inr None, s'\<lparr>calls := calls s' @ [Console (ErrorCaught e)]\<rparr>)"
  by (simp add: noThrow_def)

text \<open>
  C3. When a tick throws \<open>e\<close> and leaves the state \<open>s'\<close>, \<^verbatim>\<open>noThrow\<close> catches it: the
  callback returns normally, with \<open>e\<close> written to the console and \<open>s'\<close> otherwise kept as
  it is, nothing undone. The game loop therefore goes on with the periods that follow, from
  that state, and never ends on a throw, whereas the same schedule running the bare tick
  would end there. The frame counter of \<open>s'\<close> is the one the tick started with. What \<open>s'\<close>
  keeps depends on the phase that threw: the dispatcher's throw leaves the state the
  dispatcher reached, with the action queue not cleared; a throw of the advance or of the
  read of the dirty set leaves the dispatcher's effects and the cleared queue; a throw of
  the broadcast leaves in addition the advanced world.
\<close>

theorem tick_failure_is_contained:
  assumes fails: "tick env s = (Inl e, s')"
  shows "noThrow (tick env) s = (Inr None, s'\<lparr>calls := calls s' @ [Console (ErrorCaught e)]\<rparr>)
    \<and> frame s' = frame s
    \<and> gameLoop env ([] # qs) s
         = gameLoop env qs (s'\<lparr>calls := calls s' @ [Console (ErrorCaught e)]\<rparr>)
    \<and> fst (gameLoop env ([] # qs) s) = Inr ()
    \<and> schedule (tick env) ([] # qs) s = (Inl e, s')
    \<and> (\<forall>e1 s1. update env (actionQueue s) s = (Inl e1, s1) \<longrightarrow> e = e1 \<and> s' = s1)
    \<and> (\<forall>s1 e1 w. update env (actionQueue s) s = (Inr (), s1) \<and>
          em_update env (entityManager s1) = (Inl e1, w) \<longrightarrow>
          e = e1 \<and>
          s' = s1\<lparr>entityManager := w, actionQueue := [], calls := calls s1 @ [EmUpdate]\<rparr>)
    \<and> (\<forall>s1 w e1 w'. update env (actionQueue s) s = (Inr (), s1) \<and>
          em_update env (entityManager s1) = (Inr (), w) \<and> getDirties env w = (Inl e1, w') \<longrightarrow>
          e = e1 \<and>
          s' = s1\<lparr>entityManager := w', actionQueue := [],
                  calls := calls s1 @ [EmUpdate, GetDirties]\<rparr>)
    \<and> (\<forall>s1 w ds w' e1 p. update env (actionQueue s) s = (Inr (), s1) \<and>
          em_update env (entityManager s1) = (Inr (), w) \<and> getDirties env w = (Inr ds, w') \<and>
          ds \<noteq> [] \<and> sendToAll env (GAME_STATE ds (frame s1)) (pipe s1) = (Inl e1, p) \<longrightarrow>
          e = e1 \<and>
          s' = s1\<lparr>entityManager := w', pipe := p, actionQueue := [],
                  calls := calls s1 @ [EmUpdate, GetDirties,
                                         SendToAll (GAME_STATE ds (frame s1))]\<rparr>)"
proof (intro conjI allI impI)
  show c: "noThrow (tick env) s = (Inr None, s'\<lparr>calls := calls s' @ [Console (ErrorCaught e)]\<rparr>)"
    using fails by (rule noThrow_caught)
  show "frame s' = frame s"
    using tick_frame [of env s] fails by simp
  show "gameLoop env ([] # qs) s
         = gameLoop env qs (s'\<lparr>calls := calls s' @ [Console (ErrorCaught e)]\<rparr>)"
    using c by (simp add: gameLoop_Cons period_def ret_def)
  show "fst (gameLoop env ([] # qs) s) = Inr ()"
    unfolding gameLoop_def by (rule schedule_noThrow_returns)
  show "schedule (tick env) ([] # qs) s = (Inl e, s')"
    using fails by (simp add: bnd_def ret_def)
next
  fix e1 s1
  assume "update env (actionQueue s) s = (Inl e1, s1)"
  from tick_dispatch_throws [OF this] fails show "e = e1" "s' = s1" by simp_all
next
  fix s1 e1 w
  assume a: "update env (actionQueue s) s = (Inr (), s1) \<and>
          em_update env (entityManager s1) = (Inl e1, w)"
  then have "tick env s
      = (Inl e1, s1\<lparr>entityManager := w, actionQueue := [], calls := calls s1 @ [EmUpdate]\<rparr>)"
    by (simp add: tick_after_dispatch afterDispatch_advance_throws)
  with fails show "e = e1"
    "s' = s1\<lparr>entityManager := w, actionQueue := [], calls := calls s1 @ [EmUpdate]\<rparr>"
    by simp_all
next
  fix s1 w e1 w'
  assume a: "update env (actionQueue s) s = (Inr (), s1) \<and>
          em_update env (entityManager s1) = (Inr (), w) \<and> getDirties env w = (Inl e1, w')"
  then have "tick env s
      = (Inl e1, s1\<lparr>entityManager := w', actionQueue := [],
                     calls := calls s1 @ [EmUpdate, GetDirties]\<rparr>)"
    by (simp add: tick_after_dispatch afterDispatch_dirties_throws)
  with fails show "e = e1"
    "s' = s1\<lparr>entityManager := w', actionQueue := [],
                  calls := calls s1 @ [EmUpdate, GetDirties]\<rparr>"
    by simp_all
next
  fix s1 w ds w' e1 p
  assume a: "update env (actionQueue s) s = (Inr (), s1) \<and>
          em_update env (entityManager s1) = (Inr (), w) \<and> getDirties env w = (Inr ds, w') \<and>
          ds \<noteq> [] \<and> sendToAll env (GAME_STATE ds (frame s1)) (pipe s1) = (Inl e1, p)"
  then have "tick env s
      = (Inl e1, s1\<lparr>entityManager := w', pipe := p, actionQueue := [],
                  calls := calls s1 @ [EmUpdate, GetDirties,
                                         SendToAll (GAME_STATE ds (frame s1))]\<rparr>)"
    by (simp add: tick_after_dispatch afterDispatch_broadcast_throws)
  with fails show "e = e1"
    "s' = s1\<lparr>entityManager := w', pipe := p, actionQueue := [],
                  calls := calls s1 @ [EmUpdate, GetDirties,
                                         SendToAll (GAME_STATE ds (frame s1))]\<rparr>"
    by simp_all
qed


theorem tick_failure_is_contained_witness:
  "fst (tick sim_advance_throws (game0\<lparr>actionQueue := [MoveAction 1 0]\<rparr>)) = Inl ''advance failed''
   \<and> fst (noThrow (tick sim_advance_throws) (game0\<lparr>actionQueue := [MoveAction 1 0]\<rparr>)) = Inr None
   \<and> frame (snd (tick sim_advance_throws (game0\<lparr>actionQueue := [MoveAction 1 0]\<rparr>))) = 0
   \<and> moving (entityManager (snd (tick sim_advance_throws (game0\<lparr>actionQueue := [MoveAction 1 0]\<rparr>))))
        = [(1, 3)]
   \<and> actionQueue (snd (tick sim_advance_throws (game0\<lparr>actionQueue := [MoveAction 1 0]\<rparr>))) = []
   \<and> fst (gameLoop sim_advance_throws [[], [], []] (game0\<lparr>actionQueue := [MoveAction 1 0]\<rparr>))
        = Inr ()
   \<and> fst (tick sim_no_physics (game0\<lparr>actionQueue := [MoveAction 1 0]\<rparr>)) = Inl ''no such system''
   \<and> actionQueue (snd (tick sim_no_physics (game0\<lparr>actionQueue := [MoveAction 1 0]\<rparr>)))
        = [MoveAction 1 0]
   \<and> fst (tick sim_broadcast_throws (game0\<lparr>actionQueue := [MoveAction 1 0]\<rparr>)) = Inl ''socket closed''
   \<and> moving (entityManager (snd (tick sim_broadcast_throws (game0\<lparr>actionQueue := [MoveAction 1 0]\<rparr>))))
        = [(1, 2)]
   \<and> frame (snd (tick sim_broadcast_throws (game0\<lparr>actionQueue := [MoveAction 1 0]\<rparr>))) = 0"
proof -
  let ?s = "game0\<lparr>actionQueue := [MoveAction 1 0]\<rparr>"
  let ?s1 = "snd (update sim_advance_throws (actionQueue ?s) ?s)"
  let ?w1 = "world0\<lparr>moving := [(1, 3)]\<rparr>"
  have f1: "tick sim_advance_throws ?s = (Inl ''advance failed'', snd (tick sim_advance_throws ?s))"
    by (simp add: run_defs sim_defs sim_advance_throws_def)
  have u1: "update sim_advance_throws (actionQueue ?s) ?s = (Inr (), ?s1)"
    by (simp add: run_defs sim_defs sim_advance_throws_def)
  have a1: "em_update sim_advance_throws (entityManager ?s1) = (Inl ''advance failed'', ?w1)"
    by (simp add: run_defs sim_defs sim_advance_throws_def)
  note t1 = tick_failure_is_contained [OF f1, where qs = "[[], []]"]
  from t1 u1 a1 have s1: "snd (tick sim_advance_throws ?s)
      = ?s1\<lparr>entityManager := ?w1, actionQueue := [], calls := calls ?s1 @ [EmUpdate]\<rparr>"
    by blast
  from t1 have n1: "fst (noThrow (tick sim_advance_throws) ?s) = Inr None" by simp
  from t1 have fr1: "frame (snd (tick sim_advance_throws ?s)) = 0" by (simp add: sim_defs)
  from t1 have l1: "fst (gameLoop sim_advance_throws [[], [], []] ?s) = Inr ()" by blast
  have f2: "tick sim_no_physics ?s = (Inl ''no such system'', snd (tick sim_no_physics ?s))"
    by (simp add: run_defs sim_defs sim_no_physics_def)
  have u2: "update sim_no_physics (actionQueue ?s) ?s
      = (Inl ''no such system'', snd (update sim_no_physics (actionQueue ?s) ?s))"
    by (simp add: run_defs sim_defs sim_no_physics_def)
  note t2 = tick_failure_is_contained [OF f2, where qs = "[]"]
  from t2 u2 have s2: "snd (tick sim_no_physics ?s) = snd (update sim_no_physics (actionQueue ?s) ?s)"
    by blast
  have q2: "actionQueue (snd (update sim_no_physics (actionQueue ?s) ?s)) = [MoveAction 1 0]"
    by (simp add: run_defs sim_defs sim_no_physics_def)
  have f3: "tick sim_broadcast_throws ?s = (Inl ''socket closed'', snd (tick sim_broadcast_throws ?s))"
    by (simp add: run_defs sim_defs sim_broadcast_throws_def)
  note t3 = tick_failure_is_contained [OF f3, where qs = "[]"]
  from t3 have fr3: "frame (snd (tick sim_broadcast_throws ?s)) = 0" by (simp add: sim_defs)
  have m3: "moving (entityManager (snd (tick sim_broadcast_throws ?s))) = [(1, 2)]"
    by (simp add: run_defs sim_defs sim_broadcast_throws_def)
  have fa: "fst (tick sim_advance_throws ?s) = Inl ''advance failed''"
    using f1 by (metis fst_conv)
  have fb: "fst (tick sim_no_physics ?s) = Inl ''no such system''"
    using f2 by (metis fst_conv)
  have fc: "fst (tick sim_broadcast_throws ?s) = Inl ''socket closed''"
    using f3 by (metis fst_conv)
  have m1: "moving (entityManager (snd (tick sim_advance_throws ?s))) = [(1, 3)]"
    unfolding s1 by simp
  have q1: "actionQueue (snd (tick sim_advance_throws ?s)) = []"
    unfolding s1 by simp
  from fa n1 fr1 m1 q1 l1 fb s2 q2 fc m3 fr3 show ?thesis by simp
qed

section \<open>Joining and leaving\<close>

lemmas session_defs = bnd_def em_query_def em_call_def pipe_call_def console_def modify_def
  ret_def Let_def

lemma addPlayer_returns:
  assumes "addPlayer env k pinataId pinataToken s = (Inr i, s')"
  shows "\<exists>ents w state p1 p2 p3 p4.
      entities env (entityManager s) = Inr ents
    \<and> constructPlayer env pinataId pinataToken (entityManager s) = (Inr i, w)
    \<and> addSocket env i k (pipe s) = (Inr (), p1)
    \<and> getState env w = Inr state
    \<and> send env i (NEW_ENTITIES ents) p1 = (Inr (), p2)
    \<and> sendToAll env (NEW_ENTITIES [(i, PLAYER)]) p2 = (Inr (), p3)
    \<and> send env i (GAME_STATE state (frame s)) p3 = (Inr (), p4)
    \<and> s' = s\<lparr>entityManager := w, pipe := p4,
               calls := calls s @
                 [Entities, ConstructPlayer pinataId pinataToken, Console (AddingPlayer i),
                  AddSocket i k, GetState, Send i (NEW_ENTITIES ents),
                  SendToAll (NEW_ENTITIES [(i, PLAYER)]),
                  Send i (GAME_STATE state (frame s))]\<rparr>"
  using assms
  by (auto simp: addPlayer_def session_defs split: sum.splits prod.splits)


lemma foldr_max_ge: "x \<in> set xs \<Longrightarrow> x \<le> foldr max xs (0::nat)"
  by (induction xs) (auto simp: max_def)

lemma sim_creates_fresh: "creates_fresh sim"
proof -
  have "freshId es \<notin> fst ` set es" for es
    using foldr_max_ge [of "freshId es" "map fst es"] by (auto simp: freshId_def)
  then show ?thesis by (auto simp: creates_fresh_def sim_def)
qed

lemma sim_registry: "registry_contract sim sim_registered"
  by (auto simp: registry_contract_def sim_registered_def sim_def split: if_splits)

lemma contract_after_sends:
  assumes "registry_contract env registered"
    and "addSocket env i k p = (Inr (), p1)"
    and "send env i m p1 = (r, p2)"
  shows "registered p2 i"
  using assms unfolding registry_contract_def by metis

text \<open>
  C5. When addPlayer returns the new identity \<open>i\<close>, it has made these calls, in this order:
  read the roster; create the player entity; register the connection under \<open>i\<close>; read the
  full state; unicast to \<open>i\<close> the roster read before the creation; broadcast the notice
  naming only \<open>(i, PLAYER)\<close>; unicast to \<open>i\<close> the state read after the creation, tagged
  with the session's frame number. So the roster message is the store's roster from before
  the player existed: it excludes \<open>i\<close> whenever the store gives a new entity an identity
  that is not in the roster; and the snapshot is the store's state from after the creation:
  it includes \<open>i\<close> whenever the store's state covers a player it has just created. The
  broadcast is made on a registry that has the new connection.
\<close>

theorem addPlayer_sequence:
  assumes "addPlayer env k pinataId pinataToken s = (Inr i, s')"
  shows "\<exists>ents w state p1 p2 p3 p4.
      entities env (entityManager s) = Inr ents
    \<and> constructPlayer env pinataId pinataToken (entityManager s) = (Inr i, w)
    \<and> addSocket env i k (pipe s) = (Inr (), p1)
    \<and> getState env w = Inr state
    \<and> send env i (NEW_ENTITIES ents) p1 = (Inr (), p2)
    \<and> sendToAll env (NEW_ENTITIES [(i, PLAYER)]) p2 = (Inr (), p3)
    \<and> send env i (GAME_STATE state (frame s)) p3 = (Inr (), p4)
    \<and> s' = s\<lparr>entityManager := w, pipe := p4,
               calls := calls s @
                 [Entities, ConstructPlayer pinataId pinataToken, Console (AddingPlayer i),
                  AddSocket i k, GetState, Send i (NEW_ENTITIES ents),
                  SendToAll (NEW_ENTITIES [(i, PLAYER)]),
                  Send i (GAME_STATE state (frame s))]\<rparr>
    \<and> (creates_fresh env \<longrightarrow> i \<notin> fst ` set ents)
    \<and> (snapshot_covers env \<longrightarrow> i \<in> entityId ` set state)
    \<and> (registry_contract env registered \<longrightarrow> registered p2 i)"
proof -
  from addPlayer_returns [OF assms] obtain ents w state p1 p2 p3 p4 where
    r: "entities env (entityManager s) = Inr ents"
      "constructPlayer env pinataId pinataToken (entityManager s) = (Inr i, w)"
      "addSocket env i k (pipe s) = (Inr (), p1)"
      "getState env w = Inr state"
      "send env i (NEW_ENTITIES ents) p1 = (Inr (), p2)"
      "sendToAll env (NEW_ENTITIES [(i, PLAYER)]) p2 = (Inr (), p3)"
      "send env i (GAME_STATE state (frame s)) p3 = (Inr (), p4)"
      "s' = s\<lparr>entityManager := w, pipe := p4,
               calls := calls s @
                 [Entities, ConstructPlayer pinataId pinataToken, Console (AddingPlayer i),
                  AddSocket i k, GetState, Send i (NEW_ENTITIES ents),
                  SendToAll (NEW_ENTITIES [(i, PLAYER)]),
                  Send i (GAME_STATE state (frame s))]\<rparr>"
    by blast
  have 1: "creates_fresh env \<longrightarrow> i \<notin> fst ` set ents"
    using r(1,2) unfolding creates_fresh_def by blast
  have 2: "snapshot_covers env \<longrightarrow> i \<in> entityId ` set state"
    using r(2,4) unfolding snapshot_covers_def by blast
  have 3: "registry_contract env registered \<longrightarrow> registered p2 i"
    using contract_after_sends [OF _ r(3) r(5)] by blast
  from r 1 2 3 show ?thesis by blast
qed

theorem addPlayer_sequence_witness:
  "fst (addPlayer sim 40 ''id'' ''token'' game0) = Inr 4
   \<and> creates_fresh sim \<and> snapshot_covers sim \<and> registry_contract sim sim_registered
   \<and> delivered (pipe (snd (addPlayer sim 40 ''id'' ''token'' game0)))
      = [(4, NEW_ENTITIES [(1, PLAYER), (2, PLAYER), (3, OTHER_ENTITY 0)]),
         (1, NEW_ENTITIES [(4, PLAYER)]), (2, NEW_ENTITIES [(4, PLAYER)]),
         (4, NEW_ENTITIES [(4, PLAYER)]),
         (4, GAME_STATE [ComponentPacket 1 SPATIAL 0, ComponentPacket 2 SPATIAL 0,
                         ComponentPacket 3 SPATIAL 0, ComponentPacket 4 SPATIAL 0] 0)]
   \<and> 4 \<notin> fst ` set [(1, PLAYER), (2, PLAYER), (3 :: nat, OTHER_ENTITY 0)]
   \<and> 4 \<in> entityId ` set [ComponentPacket 1 SPATIAL 0, ComponentPacket 2 SPATIAL 0,
                         ComponentPacket 3 SPATIAL 0, ComponentPacket 4 SPATIAL 0]"
proof -
  let ?r = "addPlayer sim 40 ''id'' ''token'' game0"
  have ok: "?r = (Inr 4, snd ?r)"
    by (simp add: addPlayer_def session_defs sim_defs)
  have cf: "creates_fresh sim"
    by (rule sim_creates_fresh)
  have sc: "snapshot_covers sim"
    by (auto simp: snapshot_covers_def sim_def image_iff)
  from addPlayer_sequence [OF ok, where registered = sim_registered] cf sc sim_registry
  obtain ents w state where
    f: "entities sim (entityManager game0) = Inr ents"
      "constructPlayer sim ''id'' ''token'' (entityManager game0) = (Inr 4, w)"
      "getState sim w = Inr state"
      "4 \<notin> fst ` set ents" "4 \<in> entityId ` set state"
    by blast
  have e: "entities sim (entityManager game0) = Inr [(1, PLAYER), (2, PLAYER), (3, OTHER_ENTITY 0)]"
    by (simp add: sim_defs)
  have w: "w = snd (constructPlayer sim ''id'' ''token'' (entityManager game0))"
    using f(2) by simp
  have g: "getState sim (snd (constructPlayer sim ''id'' ''token'' (entityManager game0)))
      = Inr [ComponentPacket 1 SPATIAL 0, ComponentPacket 2 SPATIAL 0,
             ComponentPacket 3 SPATIAL 0, ComponentPacket 4 SPATIAL 0]"
    by (simp add: sim_defs)
  have d: "delivered (pipe (snd ?r))
      = [(4, NEW_ENTITIES [(1, PLAYER), (2, PLAYER), (3, OTHER_ENTITY 0)]),
         (1, NEW_ENTITIES [(4, PLAYER)]), (2, NEW_ENTITIES [(4, PLAYER)]),
         (4, NEW_ENTITIES [(4, PLAYER)]),
         (4, GAME_STATE [ComponentPacket 1 SPATIAL 0, ComponentPacket 2 SPATIAL 0,
                         ComponentPacket 3 SPATIAL 0, ComponentPacket 4 SPATIAL 0] 0)]"
    by (simp add: addPlayer_def session_defs sim_defs)
  have fo: "fst ?r = Inr 4" using ok by (metis fst_conv)
  from f(1,4) e have x: "4 \<notin> fst ` set [(1, PLAYER), (2, PLAYER), (3 :: nat, OTHER_ENTITY 0)]"
    by simp
  from f(3,5) g w
  have "4 \<in> entityId ` set [ComponentPacket 1 SPATIAL 0, ComponentPacket 2 SPATIAL 0,
                         ComponentPacket 3 SPATIAL 0, ComponentPacket 4 SPATIAL 0]"
    by simp
  note x this
  with fo cf sc sim_registry d show ?thesis by blast
qed

lemma removePlayer_returns:
  assumes "removePlayer env i s = (Inr (), s')"
  shows "\<exists>w p1 p2.
      removeEntity env i (entityManager s) = (Inr (), w)
    \<and> removeSocket env i (pipe s) = (Inr (), p1)
    \<and> sendToAll env (ENTITIES_DELETED [(i, PLAYER)]) p1 = (Inr (), p2)
    \<and> s' = s\<lparr>entityManager := w, pipe := p2,
               calls := calls s @
                 [Console (RemovingPlayer i), RemoveEntity i, RemoveSocket i,
                  SendToAll (ENTITIES_DELETED [(i, PLAYER)])]\<rparr>"
  using assms
  by (auto simp: removePlayer_def session_defs split: sum.splits prod.splits)

lemma removePlayer_broadcast_last:
  assumes "SendToAll m \<in> set (drop (length (calls s)) (calls (snd (removePlayer env i s))))"
  shows "drop (length (calls s)) (calls (snd (removePlayer env i s)))
         = [Console (RemovingPlayer i), RemoveEntity i, RemoveSocket i,
            SendToAll (ENTITIES_DELETED [(i, PLAYER)])]
       \<and> fst (removeEntity env i (entityManager s)) = Inr ()
       \<and> fst (removeSocket env i (pipe s)) = Inr ()"
  using assms
  by (auto simp: removePlayer_def session_defs split: sum.splits prod.splits)

text \<open>
  C7. When removePlayer returns, it has made exactly these calls, in this order: remove the
  entity from the store, remove its connection from the registry, broadcast one
  ENTITIES_DELETED notice naming \<open>(i, PLAYER)\<close>; the broadcast is made on the registry as
  the removal left it. A broadcast appears among the calls of any removePlayer call, also
  one that throws, only as the last of these calls, after both removals have returned.
  After the call the registry has no connection for \<open>i\<close>, given that removing a connection
  unregisters it and that a broadcast registers none; and no roster the store then returns
  contains \<open>i\<close>, given that the store's removal takes the entity out of its roster.
\<close>

theorem removePlayer_sequence:
  "(removePlayer env i s = (Inr (), s') \<longrightarrow>
      (\<exists>w p1 p2.
          removeEntity env i (entityManager s) = (Inr (), w)
        \<and> removeSocket env i (pipe s) = (Inr (), p1)
        \<and> sendToAll env (ENTITIES_DELETED [(i, PLAYER)]) p1 = (Inr (), p2)
        \<and> s' = s\<lparr>entityManager := w, pipe := p2,
                   calls := calls s @
                     [Console (RemovingPlayer i), RemoveEntity i, RemoveSocket i,
                      SendToAll (ENTITIES_DELETED [(i, PLAYER)])]\<rparr>)
      \<and> (registry_contract env registered \<longrightarrow> \<not> registered (pipe s') i)
      \<and> (roster_excludes_removed env \<longrightarrow>
           (\<forall>r. entities env (entityManager s') = Inr r \<longrightarrow> i \<notin> fst ` set r)))
   \<and> (SendToAll m \<in> set (drop (length (calls s)) (calls (snd (removePlayer env i s)))) \<longrightarrow>
        drop (length (calls s)) (calls (snd (removePlayer env i s)))
          = [Console (RemovingPlayer i), RemoveEntity i, RemoveSocket i,
             SendToAll (ENTITIES_DELETED [(i, PLAYER)])]
        \<and> fst (removeEntity env i (entityManager s)) = Inr ()
        \<and> fst (removeSocket env i (pipe s)) = Inr ())"
proof (intro conjI impI)
  assume ok: "removePlayer env i s = (Inr (), s')"
  from removePlayer_returns [OF ok] obtain w p1 p2 where
    r: "removeEntity env i (entityManager s) = (Inr (), w)"
      "removeSocket env i (pipe s) = (Inr (), p1)"
      "sendToAll env (ENTITIES_DELETED [(i, PLAYER)]) p1 = (Inr (), p2)"
      "s' = s\<lparr>entityManager := w, pipe := p2,
               calls := calls s @
                 [Console (RemovingPlayer i), RemoveEntity i, RemoveSocket i,
                  SendToAll (ENTITIES_DELETED [(i, PLAYER)])]\<rparr>"
    by blast
  from r show "\<exists>w p1 p2.
          removeEntity env i (entityManager s) = (Inr (), w)
        \<and> removeSocket env i (pipe s) = (Inr (), p1)
        \<and> sendToAll env (ENTITIES_DELETED [(i, PLAYER)]) p1 = (Inr (), p2)
        \<and> s' = s\<lparr>entityManager := w, pipe := p2,
                   calls := calls s @
                     [Console (RemovingPlayer i), RemoveEntity i, RemoveSocket i,
                      SendToAll (ENTITIES_DELETED [(i, PLAYER)])]\<rparr>"
    by blast
  have p: "pipe s' = p2" and e: "entityManager s' = w" using r(4) by simp_all
  {
    assume c: "registry_contract env registered"
    then have "\<not> registered p1 i" using r(2) unfolding registry_contract_def by blast
    moreover from c r(3) have "registered p2 = registered p1"
      unfolding registry_contract_def by blast
    ultimately show "\<not> registered (pipe s') i" using p by simp
  }
  {
    assume "roster_excludes_removed env"
    with r(1) e show "\<forall>r. entities env (entityManager s') = Inr r \<longrightarrow> i \<notin> fst ` set r"
      unfolding roster_excludes_removed_def by blast
  }
next
  assume a: "SendToAll m \<in> set (drop (length (calls s)) (calls (snd (removePlayer env i s))))"
  note b = removePlayer_broadcast_last [OF a]
  from b show "drop (length (calls s)) (calls (snd (removePlayer env i s)))
          = [Console (RemovingPlayer i), RemoveEntity i, RemoveSocket i,
             SendToAll (ENTITIES_DELETED [(i, PLAYER)])]" by blast
  from b show "fst (removeEntity env i (entityManager s)) = Inr ()" by blast
  from b show "fst (removeSocket env i (pipe s)) = Inr ()" by blast
qed

theorem removePlayer_sequence_witness:
  "fst (removePlayer sim 2 game0) = Inr ()
   \<and> registry_contract sim sim_registered \<and> roster_excludes_removed sim
   \<and> \<not> sim_registered (pipe (snd (removePlayer sim 2 game0))) 2
   \<and> entities sim (entityManager (snd (removePlayer sim 2 game0)))
        = Inr [(1, PLAYER), (3, OTHER_ENTITY 0)]
   \<and> 2 \<notin> fst ` set [(1, PLAYER), (3 :: nat, OTHER_ENTITY 0)]
   \<and> calls (snd (removePlayer sim 2 game0))
        = [Console (RemovingPlayer 2), RemoveEntity 2, RemoveSocket 2,
           SendToAll (ENTITIES_DELETED [(2, PLAYER)])]
   \<and> delivered (pipe (snd (removePlayer sim 2 game0))) = [(1, ENTITIES_DELETED [(2, PLAYER)])]"
proof -
  let ?r = "removePlayer sim 2 game0"
  have ok: "?r = (Inr (), snd ?r)"
    by (simp add: removePlayer_def session_defs sim_defs)
  have re: "roster_excludes_removed sim"
    by (auto simp: roster_excludes_removed_def sim_def)
  have c: "calls (snd ?r)
        = [Console (RemovingPlayer 2), RemoveEntity 2, RemoveSocket 2,
           SendToAll (ENTITIES_DELETED [(2, PLAYER)])]"
    by (simp add: removePlayer_def session_defs sim_defs)
  have mem: "SendToAll (ENTITIES_DELETED [(2, PLAYER)])
      \<in> set (drop (length (calls game0)) (calls (snd ?r)))"
    unfolding c by (simp add: game0_def new_Game_def)
  have e: "entities sim (entityManager (snd ?r)) = Inr [(1, PLAYER), (3, OTHER_ENTITY 0)]"
    by (simp add: removePlayer_def session_defs sim_defs)
  have d: "delivered (pipe (snd ?r)) = [(1, ENTITIES_DELETED [(2, PLAYER)])]"
    by (simp add: removePlayer_def session_defs sim_defs)
  note t = removePlayer_sequence [where env = sim and i = 2 and s = game0 and s' = "snd ?r"
      and registered = sim_registered and m = "ENTITIES_DELETED [(2, PLAYER)]"]
  from t ok sim_registry have 1: "\<not> sim_registered (pipe (snd ?r)) 2" by blast
  from t ok re e have 2: "2 \<notin> fst ` set [(1, PLAYER), (3 :: nat, OTHER_ENTITY 0)]" by blast
  from t mem have 3: "fst (removeEntity sim 2 (entityManager game0)) = Inr ()" by blast
  have fo: "fst ?r = Inr ()" using ok by (metis fst_conv)
  from fo sim_registry re 1 e 2 c d show ?thesis by blast
qed

section \<open>Colour channels\<close>

lemmas colour_defs = set_r_def set_g_def set_b_def set_a_def get_r_def get_g_def get_b_def
  get_a_def new_Colour_def






lemma comparison_clamp_keeps_NaN:
  "clamp_compare NaN 0 1 = NaN \<and> clamp_guarded NaN 0 1 = 0 \<and> in_unit NaN = False
   \<and> get_r (new_Colour clamp_compare NaN 0 0 None) = NaN"
  by (simp add: clamp_compare_def clamp_guarded_def in_unit_def zero_number_def one_number_def
      colour_defs)



end
